theory Spec2Isabelle
  imports Main "HOL-Library.AList" "HOL-Library.Sublist" "HOL-Library.Char_ord" "HOL-Library.List_Lexorder"
begin

section \<open>Firmware gathering script (scripts/getfw.py)\<close>

subsection \<open>Python values and exceptions\<close>

text \<open>
  The exceptions the script can raise, as values. \<open>ConfigError\<close> is the plain
  \<^verbatim>\<open>Exception("invalid file map")\<close> of \<^verbatim>\<open>Firmware._filemap\<close>; the others are the
  built-in exception classes of the same name (\<open>URLError\<close> stands for any failure of
  the network retrieval, \<open>OSError\<close> for any other failure of a system call).
\<close>

datatype error =
    ConfigError
  | TypeError
  | IndexError
  | FileNotFoundError
  | FileExistsError
  | NotADirectoryError
  | IsADirectoryError
  | SameFileError
  | URLError
  | OSError

text \<open>
  The \<^verbatim>\<open>files\<close> argument of a source declaration is an arbitrary Python object.
  The values a declaration can pass: a list of names, a dict from names to names
  (an association list in insertion order, keys distinct), and values of other types.
\<close>

datatype pyval =
    PyList "string list"
  | PyDict "(string \<times> string) list"
  | PyTuple "string list"
  | PyStr string
  | PyInt int
  | PyNone

subsection \<open>File-map normalization\<close>

text \<open>
  \<^verbatim>\<open>{x: x for x in files}\<close>: the comprehension stores \<open>x \<mapsto> x\<close> for each element in
  turn; storing under a key that is already present keeps the key's position.
\<close>

definition dict_of_names :: "string list \<Rightarrow> (string \<times> string) list" where
  "dict_of_names files = fold (\<lambda>x d. AList.update x x d) files []"

text \<open>
  \<^verbatim>\<open>
  def _filemap(files):
      if isinstance(files, list):
          return {x: x for x in files}
      elif isinstance(files, dict):
          return files
      else:
          raise Exception("invalid file map")
  \<close>
\<close>

fun filemap :: "pyval \<Rightarrow> error + (string \<times> string) list" where
  "filemap (PyList files) = Inr (dict_of_names files)"
| "filemap (PyDict files) = Inr files"
| "filemap _ = Inl ConfigError"

subsection \<open>Paths (pathlib)\<close>

text \<open>
  A \<^verbatim>\<open>pathlib.Path\<close> on a POSIX system: whether it starts at the root, and its
  components. Parsing a string splits it at \<^verbatim>\<open>/\<close> and drops empty and \<^verbatim>\<open>.\<close>
  components. The components \<^verbatim>\<open>..\<close> are kept in the path as they are.
\<close>

datatype path = Path (anchored: bool) (parts: "string list")

fun split_slash :: "string \<Rightarrow> string list" where
  "split_slash [] = [[]]"
| "split_slash (c # cs) =
     (if c = CHR ''/'' then [] # split_slash cs
      else (case split_slash cs of [] \<Rightarrow> [[c]] | x # xs \<Rightarrow> (c # x) # xs))"

definition path_of_str :: "string \<Rightarrow> path" where
  "path_of_str s =
     Path (take 1 s = ''/'') (filter (\<lambda>c. c \<noteq> [] \<and> c \<noteq> ''.'') (split_slash s))"

text \<open>\<^verbatim>\<open>p / q\<close>: an anchored right operand replaces the left one.\<close>

definition joinpath :: "path \<Rightarrow> path \<Rightarrow> path" where
  "joinpath p q = (if anchored q then q else Path (anchored p) (parts p @ parts q))"

text \<open>\<^verbatim>\<open>p / s\<close> for a string \<open>s\<close>.\<close>

definition join_str :: "path \<Rightarrow> string \<Rightarrow> path" where
  "join_str p s = joinpath p (path_of_str s)"

fun join_with :: "string \<Rightarrow> string list \<Rightarrow> string" where
  "join_with sep [] = []"
| "join_with sep [x] = x"
| "join_with sep (x # y # ys) = x @ sep @ join_with sep (y # ys)"

text \<open>\<^verbatim>\<open>str(p)\<close>\<close>

definition str_of :: "path \<Rightarrow> string" where
  "str_of p =
     (if anchored p then ''/'' @ join_with ''/'' (parts p)
      else if parts p = [] then ''.'' else join_with ''/'' (parts p))"

text \<open>\<^verbatim>\<open>p.name\<close> and \<^verbatim>\<open>p.parent\<close>\<close>

definition name_of :: "path \<Rightarrow> string" where
  "name_of p = (if parts p = [] then [] else last (parts p))"

definition parent :: "path \<Rightarrow> path" where
  "parent p = Path (anchored p) (butlast (parts p))"

text \<open>The entry named \<open>n\<close> of the directory \<open>d\<close>, as \<^verbatim>\<open>d.iterdir()\<close> yields it.\<close>

definition child :: "path \<Rightarrow> string \<Rightarrow> path" where
  "child d n = Path (anchored d) (parts d @ [n])"

text \<open>
  Walking a list of components from the root: \<^verbatim>\<open>..\<close> steps back to the directory
  above (the root is above itself), any other component steps down.
\<close>

definition normalise :: "string list \<Rightarrow> string list" where
  "normalise ps = foldl (\<lambda>acc c. if c = ''..'' then butlast acc else acc @ [c]) [] ps"

text \<open>
  \<^verbatim>\<open>p.resolve()\<close>: the path made absolute against the working directory \<open>wd\<close>, with
  its \<^verbatim>\<open>..\<close> components walked (symbolic links are not followed in this model, see
  below).
\<close>

definition resolve :: "string list \<Rightarrow> path \<Rightarrow> path" where
  "resolve wd p = Path True (normalise (if anchored p then parts p else wd @ parts p))"

subsection \<open>The file system\<close>

text \<open>
  What the script reads and writes. A file holds bytes or a JSON document (the text
  \<^verbatim>\<open>json.dump\<close> writes is identified with the value it encodes).
\<close>

datatype json = JString string | JArray "json list" | JObject "(string \<times> json) list"

datatype content = Bytes string | JsonDoc json

datatype node = File content | Dir | Symlink string

text \<open>
  The file system is the list of its entries, each under its absolute path (the
  components from the root). The order of the list is the order in which the system
  enumerates directory entries: it is whatever the file system makes it, and nothing
  sorts it. The root itself is always a directory. Symbolic links are leaves: they are
  created, listed and removed, but no path is resolved through one; an operation that
  would have to follow a link reports \<open>OSError\<close>.
\<close>

type_synonym fs = "(string list \<times> node) list"

definition lookup :: "fs \<Rightarrow> string list \<Rightarrow> node option" where
  "lookup f k = (if k = [] then Some Dir else map_of f k)"

text \<open>
  The entry under a path as the system finds it, walking down from the root without
  following a link in the last place (\<^verbatim>\<open>lstat\<close>). The walk fails at the first
  component on the way that is not a directory: with the not-found error where nothing
  is there, with \<^verbatim>\<open>NotADirectoryError\<close> where a file is there. Where the directories on
  the way exist, the result is what is under the path, if anything.
\<close>

fun walk :: "fs \<Rightarrow> string list \<Rightarrow> string list \<Rightarrow> error + node option" where
  "walk f cur [] = Inr (Some Dir)"
| "walk f cur [c] = Inr (lookup f (cur @ [c]))"
| "walk f cur (c # c' # cs) =
     (case lookup f (cur @ [c]) of
        None \<Rightarrow> Inl FileNotFoundError
      | Some Dir \<Rightarrow> walk f (cur @ [c]) (c' # cs)
      | Some (File _) \<Rightarrow> Inl NotADirectoryError
      | Some (Symlink _) \<Rightarrow> Inl OSError)"

definition entry :: "fs \<Rightarrow> string list \<Rightarrow> error + node option" where
  "entry f k = walk f [] k"

text \<open>
  \<^verbatim>\<open>Path.mkdir(parents=True, exist_ok=True)\<close>, walking down from the root: existing
  directories are kept, missing ones are created, anything else in the way is an error.
\<close>

fun mkdir_walk :: "string list \<Rightarrow> string list \<Rightarrow> fs \<Rightarrow> error + fs" where
  "mkdir_walk cur [] f = Inr f"
| "mkdir_walk cur (c # cs) f =
     (case lookup f (cur @ [c]) of
        Some Dir \<Rightarrow> mkdir_walk (cur @ [c]) cs f
      | None \<Rightarrow> mkdir_walk (cur @ [c]) cs (f @ [(cur @ [c], Dir)])
      | Some (File _) \<Rightarrow> Inl (if cs = [] then FileExistsError else NotADirectoryError)
      | Some (Symlink _) \<Rightarrow> Inl OSError)"

definition mkdir_parents :: "string list \<Rightarrow> fs \<Rightarrow> error + fs" where
  "mkdir_parents k f = mkdir_walk [] k f"

text \<open>Opening \<open>k\<close> for writing (\<^verbatim>\<open>open(k, "wb")\<close>) and storing content \<open>c\<close>.\<close>

definition write_file :: "string list \<Rightarrow> content \<Rightarrow> fs \<Rightarrow> error + fs" where
  "write_file k c f =
     (case entry f k of
        Inl e \<Rightarrow> Inl e
      | Inr (Some Dir) \<Rightarrow> Inl IsADirectoryError
      | Inr (Some (Symlink _)) \<Rightarrow> Inl OSError
      | Inr _ \<Rightarrow> Inr (AList.update k (File c) f))"

text \<open>Opening \<open>k\<close> for reading.\<close>

definition read_file :: "string list \<Rightarrow> fs \<Rightarrow> error + content" where
  "read_file k f =
     (case entry f k of
        Inl e \<Rightarrow> Inl e
      | Inr None \<Rightarrow> Inl FileNotFoundError
      | Inr (Some (File c)) \<Rightarrow> Inr c
      | Inr (Some Dir) \<Rightarrow> Inl IsADirectoryError
      | Inr (Some (Symlink _)) \<Rightarrow> Inl OSError)"

text \<open>Whether something is there under \<open>k\<close>.\<close>

definition present :: "fs \<Rightarrow> string list \<Rightarrow> bool" where
  "present f k = (case entry f k of Inr (Some _) \<Rightarrow> True | _ \<Rightarrow> False)"

text \<open>
  \<^verbatim>\<open>shutil.copy(src, dst)\<close>: a destination that is a directory receives the file under
  the source's name; copying a file onto itself is refused; the source is opened
  before the destination.
\<close>

definition shutil_copy :: "string list \<Rightarrow> string list \<Rightarrow> fs \<Rightarrow> error + fs" where
  "shutil_copy src dst f =
     (let dst' = (if entry f dst = Inr (Some Dir) \<and> src \<noteq> [] then dst @ [last src] else dst) in
      if dst' = src \<and> present f src then Inl SameFileError
      else (case read_file src f of
              Inl e \<Rightarrow> Inl e
            | Inr c \<Rightarrow> write_file dst' c f))"

text \<open>
  \<^verbatim>\<open>Path.unlink(missing_ok=True)\<close>: only the not-found error is swallowed.
\<close>

definition unlink_missing_ok :: "string list \<Rightarrow> fs \<Rightarrow> error + fs" where
  "unlink_missing_ok k f =
     (case entry f k of
        Inl e \<Rightarrow> (if e = FileNotFoundError then Inr f else Inl e)
      | Inr None \<Rightarrow> Inr f
      | Inr (Some Dir) \<Rightarrow> Inl IsADirectoryError
      | Inr (Some _) \<Rightarrow> Inr (AList.delete k f))"

text \<open>\<^verbatim>\<open>Path.symlink_to(target)\<close>: the link must not exist yet.\<close>

definition symlink_to :: "string list \<Rightarrow> string \<Rightarrow> fs \<Rightarrow> error + fs" where
  "symlink_to k target f =
     (case entry f k of
        Inl e \<Rightarrow> Inl e
      | Inr None \<Rightarrow> Inr (AList.update k (Symlink target) f)
      | Inr (Some _) \<Rightarrow> Inl FileExistsError)"

text \<open>\<^verbatim>\<open>shutil.rmtree(k)\<close>: \<open>k\<close> must be a directory; it goes with everything below it.\<close>

definition rmtree :: "string list \<Rightarrow> fs \<Rightarrow> error + fs" where
  "rmtree k f =
     (case entry f k of
        Inl e \<Rightarrow> Inl e
      | Inr None \<Rightarrow> Inl FileNotFoundError
      | Inr (Some Dir) \<Rightarrow> Inr (filter (\<lambda>(q, n). \<not> prefix k q) f)
      | Inr (Some (File _)) \<Rightarrow> Inl NotADirectoryError
      | Inr (Some (Symlink _)) \<Rightarrow> Inl OSError)"

text \<open>
  \<^verbatim>\<open>Path.iterdir()\<close>: the names of the entries directly below \<open>k\<close>, in the order of
  enumeration.
\<close>

definition iterdir :: "string list \<Rightarrow> fs \<Rightarrow> error + string list" where
  "iterdir k f =
     (case entry f k of
        Inl e \<Rightarrow> Inl e
      | Inr None \<Rightarrow> Inl FileNotFoundError
      | Inr (Some Dir) \<Rightarrow> Inr (map last (filter (\<lambda>q. q \<noteq> [] \<and> butlast q = k) (map fst f)))
      | Inr (Some (File _)) \<Rightarrow> Inl NotADirectoryError
      | Inr (Some (Symlink _)) \<Rightarrow> Inl OSError)"

text \<open>
  \<^verbatim>\<open>tempfile.NamedTemporaryFile()\<close> creating the empty file \<open>k\<close>, which must be new.
\<close>

definition create_temp :: "string list \<Rightarrow> fs \<Rightarrow> error + fs" where
  "create_temp k f =
     (case entry f k of
        Inl e \<Rightarrow> Inl e
      | Inr None \<Rightarrow> Inr (AList.update k (File (Bytes [])) f)
      | Inr (Some _) \<Rightarrow> Inl FileExistsError)"

subsection \<open>The world: file system and observable actions\<close>

text \<open>
  The script acts on the file system and on the outside: it prints lines, requests
  URLs and runs external programs. The trace records these actions in order; a program
  run is recorded with its argument vector and the file system it was started on.
\<close>

datatype event = Print string | Request string | Exec "string list" fs

record world =
  fsys :: fs
  trace :: "event list"

text \<open>
  What the script is given: the working directory, the directory of the script
  (\<^verbatim>\<open>Path(__file__).parent\<close>), the name the temporary file gets, what the network
  returns for a URL, and what an external program does when run on a file system: it
  cannot be started (an exception), or it changes the file system and returns an exit
  status.
\<close>

record env =
  wd :: "string list"
  script_dir :: path
  tmp_name :: string
  urlopen :: "string \<Rightarrow> error + content"
  run :: "string list \<Rightarrow> fs \<Rightarrow> error + (int \<times> fs)"

text \<open>The \<^verbatim>\<open>args\<close> namespace built by \<^verbatim>\<open>main\<close>.\<close>

record args =
  path_wdsfr :: path
  path_out :: path

text \<open>
  A statement either completes with a value in a new world, or raises an exception,
  leaving the world as it was at that point.
\<close>

datatype 'a result = Ok 'a world | Raised error world

type_synonym action = "world \<Rightarrow> unit result"

text \<open>Statements in sequence: the first exception ends the sequence.\<close>

fun seq :: "action list \<Rightarrow> action" where
  "seq [] w = Ok () w"
| "seq (a # as) w = (case a w of Ok _ w' \<Rightarrow> seq as w' | Raised e w' \<Rightarrow> Raised e w')"

text \<open>An expression statement: the value is dropped.\<close>

definition discard :: "(world \<Rightarrow> 'a result) \<Rightarrow> action" where
  "discard a w = (case a w of Ok _ w' \<Rightarrow> Ok () w' | Raised e w' \<Rightarrow> Raised e w')"

text \<open>
  A body with a release at its end: the release \<open>g\<close> is applied to the file system when
  the body is left, whether it completes or raises.
\<close>

definition released :: "(fs \<Rightarrow> fs) \<Rightarrow> action \<Rightarrow> action" where
  "released g body w =
     (case body w of
        Ok x w' \<Rightarrow> Ok x (w'\<lparr>fsys := g (fsys w')\<rparr>)
      | Raised e w' \<Rightarrow> Raised e (w'\<lparr>fsys := g (fsys w')\<rparr>))"

definition fs_op :: "(fs \<Rightarrow> error + fs) \<Rightarrow> action" where
  "fs_op g w = (case g (fsys w) of Inl e \<Rightarrow> Raised e w | Inr f' \<Rightarrow> Ok () (w\<lparr>fsys := f'\<rparr>))"

definition emit :: "event \<Rightarrow> action" where
  "emit ev w = Ok () (w\<lparr>trace := trace w @ [ev]\<rparr>)"

text \<open>
  The key of a path in the file system: the path taken from the working directory,
  with its \<^verbatim>\<open>..\<close> components walked on the names alone (the directory a \<^verbatim>\<open>..\<close>
  steps out of is not looked up).
\<close>

definition key :: "env \<Rightarrow> path \<Rightarrow> string list" where
  "key E p = parts (resolve (wd E) p)"

text \<open>
  \<^verbatim>\<open>subprocess.call(argv)\<close>: raises when the program cannot be started, and otherwise
  returns its exit status, whatever it is.
\<close>

definition subprocess_call :: "env \<Rightarrow> string list \<Rightarrow> world \<Rightarrow> int result" where
  "subprocess_call E argv w =
     (let w1 = w\<lparr>trace := trace w @ [Exec argv (fsys w)]\<rparr> in
      case run E argv (fsys w) of
        Inl e \<Rightarrow> Raised e w1
      | Inr (status, f') \<Rightarrow> Ok status (w1\<lparr>fsys := f'\<rparr>))"

text \<open>
  \<^verbatim>\<open>urllib.request.urlretrieve(url, k)\<close>: the URL is opened first, then the file.
\<close>

definition urlretrieve :: "env \<Rightarrow> string \<Rightarrow> string list \<Rightarrow> action" where
  "urlretrieve E url k =
     seq [emit (Request url),
          (\<lambda>w. case urlopen E url of
                  Inl e \<Rightarrow> Raised e w
                | Inr c \<Rightarrow> fs_op (write_file k c) w)]"

subsection \<open>Logger\<close>

definition log_pfx :: "string list" where
  "log_pfx = [''==> '', '' -> '', ''    '']"

record logger =
  level :: nat
  pfx :: string

definition Logger :: "nat \<Rightarrow> error + logger" where
  "Logger l = (if l < length log_pfx then Inr \<lparr>level = l, pfx = log_pfx ! l\<rparr> else Inl IndexError)"

definition sub :: "logger \<Rightarrow> error + logger" where
  "sub log = Logger (level log + 1)"

definition info :: "logger \<Rightarrow> string \<Rightarrow> action" where
  "info log msg = emit (Print (pfx log @ msg))"

subsection \<open>Firmware sources\<close>

definition PATH_PLATFORM :: string where "PATH_PLATFORM = ''XIAOMI/BOOK124''"
definition PATH_VENUS :: string where "PATH_VENUS = ''venus-5.2''"
definition PATH_WDSFR :: string where
  "PATH_WDSFR = ''Windows/System32/DriverStore/FileRepository''"
definition ATH10K_BOARD_FILE :: string where "ATH10K_BOARD_FILE = ''bdwlan.b58''"
definition ATH10K_BOARD_NAME :: string where
  "ATH10K_BOARD_NAME = ''bus=snoc,qmi-board-id=ff,qmi-chip-id=30224''"

definition PATH_THIRDPARTY :: "env \<Rightarrow> path" where
  "PATH_THIRDPARTY E = join_str (script_dir E) ''third-party''"

text \<open>The two kinds of source, with the fields their constructors set.\<close>

datatype firmware =
    WindowsDriverFirmware (name: string) (target_directory: path)
      (source_directory: string) (files: "(string \<times> string) list")
  | DownloadFirmware (name: string) (target_directory: path)
      (source_url: string) (files: "(string \<times> string) list")

text \<open>
  The constructors (\<^verbatim>\<open>__init__\<close>): the file map is normalized here, so an invalid
  one makes the construction raise.
\<close>

definition new_WindowsDriverFirmware ::
    "string \<Rightarrow> string \<Rightarrow> string \<Rightarrow> pyval \<Rightarrow> error + firmware" where
  "new_WindowsDriverFirmware n td sd fl =
     (case filemap fl of
        Inl e \<Rightarrow> Inl e
      | Inr m \<Rightarrow> Inr (WindowsDriverFirmware n (path_of_str td) sd m))"

definition new_DownloadFirmware ::
    "string \<Rightarrow> string \<Rightarrow> string \<Rightarrow> pyval \<Rightarrow> error + firmware" where
  "new_DownloadFirmware n td url fl =
     (case filemap fl of
        Inl e \<Rightarrow> Inl e
      | Inr m \<Rightarrow> Inr (DownloadFirmware n (path_of_str td) url m))"

text \<open>
  \<^verbatim>\<open>
  def _find_source_directory(self, args):
      for p in args.path_wdsfr.iterdir():
          if p.name.startswith(self.source_directory):
              return p
  \<close>
  Falling off the loop returns \<^verbatim>\<open>None\<close>.
\<close>

fun first_match :: "string \<Rightarrow> path list \<Rightarrow> path option" where
  "first_match pre [] = None"
| "first_match pre (p # ps) =
     (if prefix pre (name_of p) then Some p else first_match pre ps)"

definition find_source_directory :: "env \<Rightarrow> firmware \<Rightarrow> args \<Rightarrow> fs \<Rightarrow> error + path option" where
  "find_source_directory E self a f =
     (case iterdir (key E (path_wdsfr a)) f of
        Inl e \<Rightarrow> Inl e
      | Inr names \<Rightarrow>
          Inr (first_match (source_directory self) (map (child (path_wdsfr a)) names)))"

text \<open>
  The body of the copy loop of \<^verbatim>\<open>WindowsDriverFirmware.get\<close>. With \<^verbatim>\<open>base\<close> being
  \<^verbatim>\<open>None\<close>, the first statement \<^verbatim>\<open>src = base / s\<close> raises \<^verbatim>\<open>TypeError\<close>.
\<close>

fun copy_step :: "env \<Rightarrow> logger \<Rightarrow> args \<Rightarrow> firmware \<Rightarrow> path option \<Rightarrow> string \<times> string \<Rightarrow> action" where
  "copy_step E log a self None (s, t) = (\<lambda>w. Raised TypeError w)"
| "copy_step E log a self (Some base) (s, t) =
     (let src = join_str base s;
          tgt = join_str (joinpath (path_out a) (target_directory self)) t
      in seq [fs_op (mkdir_parents (key E (parent tgt))),
              info log (''copying '' @ [CHR 0x27] @ str_of src @ [CHR 0x27] @ '' to '' @ [CHR 0x27]
                          @ str_of (join_str (target_directory self) t) @ [CHR 0x27]),
              fs_op (shutil_copy (key E src) (key E tgt))])"

text \<open>The body of the loop of \<^verbatim>\<open>DownloadFirmware.get\<close>.\<close>

fun download_step :: "env \<Rightarrow> logger \<Rightarrow> args \<Rightarrow> firmware \<Rightarrow> string \<times> string \<Rightarrow> action" where
  "download_step E log a self (s, t) =
     (let src = source_url self @ ''/'' @ s;
          tgt = join_str (joinpath (path_out a) (target_directory self)) t
      in seq [fs_op (mkdir_parents (key E (parent tgt))),
              info log (''downloading '' @ [CHR 0x27] @ src @ [CHR 0x27] @ '' to '' @ [CHR 0x27]
                          @ str_of (join_str (target_directory self) t) @ [CHR 0x27]),
              urlretrieve E src (key E tgt)])"

text \<open>\<^verbatim>\<open>get(self, log, args)\<close> of the two kinds of source.\<close>

fun get :: "env \<Rightarrow> firmware \<Rightarrow> logger \<Rightarrow> args \<Rightarrow> action" where
  "get E (WindowsDriverFirmware n td sd fm) log a =
     (\<lambda>w. case find_source_directory E (WindowsDriverFirmware n td sd fm) a (fsys w) of
             Inl e \<Rightarrow> Raised e w
           | Inr base \<Rightarrow>
               seq (map (copy_step E log a (WindowsDriverFirmware n td sd fm) base) fm) w)"
| "get E (DownloadFirmware n td url fm) log a =
     seq (map (download_step E log a (DownloadFirmware n td url fm)) fm)"

subsection \<open>Patches\<close>

datatype patch = Patch (patch_name: string) (fn: "logger \<Rightarrow> args \<Rightarrow> action")

definition apply_patch :: "patch \<Rightarrow> logger \<Rightarrow> args \<Rightarrow> action" where
  "apply_patch p log a = fn p log a"

text \<open>
  \<^verbatim>\<open>
  def patch_venus_extract(log, args):
      pil_splitter = PATH_THIRDPARTY / "qcom-mbn-tools" / "pil-splitter.py"
      mbn_venus = args.path_out / 'qcom' / PATH_PLATFORM / 'qcvss8180.mbn'
      dir_venus = args.path_out / 'qcom' / PATH_VENUS
      dir_venus.mkdir(parents=True, exist_ok=True)
      subprocess.call(["python", pil_splitter, mbn_venus, dir_venus / 'venus'])
      shutil.copy(mbn_venus, dir_venus / 'venus.mbn')
  \<close>
\<close>

definition patch_venus_extract :: "env \<Rightarrow> logger \<Rightarrow> args \<Rightarrow> action" where
  "patch_venus_extract E log a =
     (let pil_splitter = join_str (join_str (PATH_THIRDPARTY E) ''qcom-mbn-tools'') ''pil-splitter.py'';
          mbn_venus = join_str (join_str (join_str (path_out a) ''qcom'') PATH_PLATFORM) ''qcvss8180.mbn'';
          dir_venus = join_str (join_str (path_out a) ''qcom'') PATH_VENUS
      in seq [fs_op (mkdir_parents (key E dir_venus)),
              discard (subprocess_call E
                 [''python'', str_of pil_splitter, str_of mbn_venus, str_of (join_str dir_venus ''venus'')]),
              fs_op (shutil_copy (key E mbn_venus) (key E (join_str dir_venus ''venus.mbn'')))])"

text \<open>
  \<^verbatim>\<open>
  def patch_ath10k_board(log, args):
      ath10k_bdencoder = PATH_THIRDPARTY / "qca-swiss-army-knife" / "tools" / "scripts" / "ath10k" / "ath10k-bdencoder"
      path_boards = args.path_out.resolve() / 'ath10k' / 'WCN3990' / 'hw1.0' / 'boards'
      path_board_out = args.path_out.resolve() / 'ath10k' / 'WCN3990' / 'hw1.0' / 'board-2.bin'
      spec = [{"data": str(path_boards / ATH10K_BOARD_FILE), "names": [ATH10K_BOARD_NAME]}]
      file = tempfile.NamedTemporaryFile()
      with open(file.name, "w") as fd:
          json.dump(spec, fd)
      subprocess.call(["python", ath10k_bdencoder, "-c", file.name, "-o", path_board_out])
      shutil.rmtree(path_boards)
  \<close>
  The temporary file object lives from its creation until the function is left, by
  return or by an exception; its release removes the file if it is still there.
\<close>

definition ath10k_bdencoder :: "env \<Rightarrow> path" where
  "ath10k_bdencoder E =
     join_str (join_str (join_str (join_str (join_str (PATH_THIRDPARTY E)
       ''qca-swiss-army-knife'') ''tools'') ''scripts'') ''ath10k'') ''ath10k-bdencoder''"

definition path_boards :: "env \<Rightarrow> args \<Rightarrow> path" where
  "path_boards E a =
     join_str (join_str (join_str (join_str (resolve (wd E) (path_out a))
       ''ath10k'') ''WCN3990'') ''hw1.0'') ''boards''"

definition path_board_out :: "env \<Rightarrow> args \<Rightarrow> path" where
  "path_board_out E a =
     join_str (join_str (join_str (join_str (resolve (wd E) (path_out a))
       ''ath10k'') ''WCN3990'') ''hw1.0'') ''board-2.bin''"

definition board_spec :: "env \<Rightarrow> args \<Rightarrow> json" where
  "board_spec E a =
     JArray [JObject [(''data'', JString (str_of (join_str (path_boards E a) ATH10K_BOARD_FILE))),
                      (''names'', JArray [JString ATH10K_BOARD_NAME])]]"

definition patch_ath10k_board :: "env \<Rightarrow> logger \<Rightarrow> args \<Rightarrow> action" where
  "patch_ath10k_board E log a =
     (let tmp = key E (path_of_str (tmp_name E))
      in seq [fs_op (create_temp tmp),
              released (AList.delete tmp)
                (seq [fs_op (write_file tmp (JsonDoc (board_spec E a))),
                      discard (subprocess_call E
                         [''python'', str_of (ath10k_bdencoder E), ''-c'', tmp_name E,
                          ''-o'', str_of (path_board_out E a)]),
                      fs_op (rmtree (key E (path_boards E a)))])])"

text \<open>
  \<^verbatim>\<open>
  def patch_ath10k_firmware(log, args):
      ath10k_fwencoder = PATH_THIRDPARTY / "qca-swiss-army-knife" / "tools" / "scripts" / "ath10k" / "ath10k-fwencoder"
      fw5_bin = args.path_out / 'ath10k' / 'WCN3990' / 'hw1.0' / 'firmware-5.bin'
      args = ['--modify', '--features=wowlan,mgmt-tx-by-ref,non-bmi,single-chan-info-per-channel', fw5_bin]
      subprocess.call(["python", ath10k_fwencoder] + args)
  \<close>
\<close>

definition patch_ath10k_firmware :: "env \<Rightarrow> logger \<Rightarrow> args \<Rightarrow> action" where
  "patch_ath10k_firmware E log a =
     (let ath10k_fwencoder =
            join_str (join_str (join_str (join_str (join_str (PATH_THIRDPARTY E)
              ''qca-swiss-army-knife'') ''tools'') ''scripts'') ''ath10k'') ''ath10k-fwencoder'';
          fw5_bin = join_str (join_str (join_str (join_str (path_out a)
              ''ath10k'') ''WCN3990'') ''hw1.0'') ''firmware-5.bin''
      in discard (subprocess_call E
           ([''python'', str_of ath10k_fwencoder] @
            [''--modify'',
             ''--features=wowlan,mgmt-tx-by-ref,non-bmi,single-chan-info-per-channel'',
             str_of fw5_bin])))"

text \<open>
  \<^verbatim>\<open>s.replace(old, new)\<close>: the occurrences of \<open>old\<close> are found from the left and do
  not overlap; an empty \<open>old\<close> matches before every character and at the end.
\<close>

function py_replace :: "string \<Rightarrow> string \<Rightarrow> string \<Rightarrow> string" where
  "py_replace old new [] = (if old = [] then new else [])"
| "py_replace old new (c # cs) =
     (if old = [] then new @ c # py_replace old new cs
      else if prefix old (c # cs) then new @ py_replace old new (drop (length old) (c # cs))
      else c # py_replace old new cs)"
  by pat_completeness auto
termination
  by (relation "measure (\<lambda>(old, new, s). length s)") auto

text \<open>
  \<^verbatim>\<open>
  def patch_qca_bt_symlinks(log, args):
      base_path = args.path_out / 'qca'
      files = [ "crbtfw21.tlv", "crnv21.b3c", "crnv21.b44", "crnv21.b45",
                "crnv21.b46", "crnv21.b47", "crnv21.b71", "crnv21.bin" ]
      for file in files:
          link = base_path / file.replace('21', '01')
          link.unlink(missing_ok=True)
          link.symlink_to(file)
  \<close>
\<close>

definition qca_bt_files :: "string list" where
  "qca_bt_files =
     [''crbtfw21.tlv'', ''crnv21.b3c'', ''crnv21.b44'', ''crnv21.b45'',
      ''crnv21.b46'', ''crnv21.b47'', ''crnv21.b71'', ''crnv21.bin'']"

definition symlink_step :: "env \<Rightarrow> path \<Rightarrow> string \<Rightarrow> action" where
  "symlink_step E base_path file =
     (let link = join_str base_path (py_replace ''21'' ''01'' file)
      in seq [fs_op (unlink_missing_ok (key E link)),
              fs_op (symlink_to (key E link) file)])"

definition patch_qca_bt_symlinks :: "env \<Rightarrow> logger \<Rightarrow> args \<Rightarrow> action" where
  "patch_qca_bt_symlinks E log a =
     seq (map (symlink_step E (join_str (path_out a) ''qca'')) qca_bt_files)"

definition patches :: "env \<Rightarrow> patch list" where
  "patches E =
     [Patch ''venus'' (patch_venus_extract E),
      Patch ''ath10k/board-2.bin'' (patch_ath10k_board E),
      Patch ''ath10k/firmware-5.bin'' (patch_ath10k_firmware E),
      Patch ''qca/bt'' (patch_qca_bt_symlinks E)]"

subsection \<open>The pipeline\<close>

text \<open>
  \<^verbatim>\<open>
  def gather(log, args, sources):
      for src in sources:
          log.info(f"{src.name}")
          src.get(log.sub(), args)

  def patch(log, args, patches):
      for patch in patches:
          log.info(f"{patch.name}")
          patch.apply(log.sub(), args)
  \<close>
\<close>

definition gather_step :: "env \<Rightarrow> logger \<Rightarrow> args \<Rightarrow> firmware \<Rightarrow> action" where
  "gather_step E log a src =
     seq [info log (name src),
          (\<lambda>w. case sub log of Inl e \<Rightarrow> Raised e w | Inr l \<Rightarrow> get E src l a w)]"

definition gather :: "env \<Rightarrow> logger \<Rightarrow> args \<Rightarrow> firmware list \<Rightarrow> action" where
  "gather E log a sources = seq (map (gather_step E log a) sources)"

definition patch_step :: "logger \<Rightarrow> args \<Rightarrow> patch \<Rightarrow> action" where
  "patch_step log a p =
     seq [info log (patch_name p),
          (\<lambda>w. case sub log of Inl e \<Rightarrow> Raised e w | Inr l \<Rightarrow> apply_patch p l a w)]"

definition patch :: "logger \<Rightarrow> args \<Rightarrow> patch list \<Rightarrow> action" where
  "patch log a ps = seq (map (patch_step log a) ps)"

text \<open>
  The body of \<^verbatim>\<open>main\<close> once the arguments are parsed: \<open>windows\<close> and \<open>output\<close> are the
  values of the two options. The registry of sources is a parameter, as is the list of
  patches (the script passes its global lists).
  \<^verbatim>\<open>
      args.path_wdsfr = Path(cli_args.windows) / PATH_WDSFR
      args.path_out = Path(cli_args.output)
      log = Logger()
      log.info("retrieving base firmware files")
      gather(log.sub(), args, sources)
      log.info("patching firmware files")
      patch(log.sub(), args, patches)
      log.info("done!")
  \<close>
\<close>

definition make_args :: "string \<Rightarrow> string \<Rightarrow> args" where
  "make_args windows output =
     \<lparr>path_wdsfr = join_str (path_of_str windows) PATH_WDSFR, path_out = path_of_str output\<rparr>"

definition pipeline :: "env \<Rightarrow> args \<Rightarrow> firmware list \<Rightarrow> patch list \<Rightarrow> action" where
  "pipeline E a sources ps w =
     (case Logger 0 of
        Inl e \<Rightarrow> Raised e w
      | Inr log \<Rightarrow>
          seq [info log ''retrieving base firmware files'',
               (\<lambda>w. case sub log of Inl e \<Rightarrow> Raised e w | Inr l \<Rightarrow> gather E l a sources w),
               info log ''patching firmware files'',
               (\<lambda>w. case sub log of Inl e \<Rightarrow> Raised e w | Inr l \<Rightarrow> patch l a ps w),
               info log ''done!''] w)"

text \<open>
  \<^verbatim>\<open>main\<close> as a process: the exit status and the world it leaves. An exception that
  reaches the top ends the process with status 1; so does running as root.
\<close>

definition main :: "env \<Rightarrow> nat \<Rightarrow> string \<Rightarrow> string \<Rightarrow> firmware list \<Rightarrow> patch list \<Rightarrow> world \<Rightarrow> nat \<times> world" where
  "main E euid windows output sources ps w =
     (if euid = 0
      then (1, w\<lparr>trace := trace w @ [Print ''Please do not run this script as root!'']\<rparr>)
      else (case pipeline E (make_args windows output) sources ps w of
              Ok _ w' \<Rightarrow> (0, w')
            | Raised e w' \<Rightarrow> (1, w')))"

subsection \<open>Auxiliary notions for the properties\<close>

text \<open>The world after one more printed line.\<close>

definition printed :: "string \<Rightarrow> world \<Rightarrow> world" where
  "printed line w = w\<lparr>trace := trace w @ [Print line]\<rparr>"

text \<open>
  The three loggers of a run: the one \<^verbatim>\<open>main\<close> creates, the one it passes to
  \<^verbatim>\<open>gather\<close> and \<^verbatim>\<open>patch\<close>, and the one these pass to each source and patch.
\<close>

definition root_logger :: logger where
  "root_logger = \<lparr>level = 0, pfx = ''==> ''\<rparr>"

definition phase_logger :: logger where
  "phase_logger = \<lparr>level = 1, pfx = '' -> ''\<rparr>"

definition step_logger :: logger where
  "step_logger = \<lparr>level = 2, pfx = ''    ''\<rparr>"

text \<open>
  The same environment, except that every external program that runs returns the exit
  status \<open>k\<close>.
\<close>

definition force_status :: "int \<Rightarrow> env \<Rightarrow> env" where
  "force_status k E =
     E\<lparr>run := (\<lambda>argv f. case run E argv f of Inl e \<Rightarrow> Inl e | Inr (st, f') \<Rightarrow> Inr (k, f'))\<rparr>"

text \<open>
  The selection the specification describes for directory resolution, in its words:
  of the children whose name starts with the prefix, the first in lexicographic order.
\<close>

definition lexicographic_first_match :: "string \<Rightarrow> string list \<Rightarrow> string option" where
  "lexicographic_first_match pre names =
     (case sort (filter (prefix pre) names) of [] \<Rightarrow> None | n # _ \<Rightarrow> Some n)"

text \<open>
  An environment for the concrete runs below: the working directory is \<^verbatim>\<open>/work\<close>, the
  script lives in \<^verbatim>\<open>/opt/fw/scripts\<close>, the network returns the URL itself as content,
  and every external program leaves the file system alone and exits with status 1.
\<close>

definition example_env :: env where
  "example_env =
     \<lparr>wd = [''work''],
      script_dir = Path True [''opt'', ''fw'', ''scripts''],
      tmp_name = ''/tmp/tmpspec'',
      urlopen = (\<lambda>url. Inr (Bytes url)),
      run = (\<lambda>argv f. Inr (1, f))\<rparr>"

text \<open>Reading an outcome: which exception it raised, whether it completed, its world.\<close>

definition raises :: "error \<Rightarrow> 'a result \<Rightarrow> bool" where
  "raises e r = (case r of Ok _ _ \<Rightarrow> False | Raised e' _ \<Rightarrow> e' = e)"

definition completes :: "'a result \<Rightarrow> bool" where
  "completes r = (case r of Ok _ _ \<Rightarrow> True | Raised _ _ \<Rightarrow> False)"

definition world_of :: "'a result \<Rightarrow> world" where
  "world_of r = (case r of Ok _ w \<Rightarrow> w | Raised _ w \<Rightarrow> w)"

text \<open>
  Three entries of the script's registry, and the arguments of a run started in
  \<^verbatim>\<open>/work\<close> with \<^verbatim>\<open>--windows /mnt --output out\<close>.
\<close>

definition URL_AARCH64_FIRMWARE_REPO :: string where
  "URL_AARCH64_FIRMWARE_REPO =
     ''https://raw.githubusercontent.com/linux-surface/aarch64-firmware/main/firmware''"

definition gpu_base :: firmware where
  "gpu_base =
     DownloadFirmware ''gpu/base'' (path_of_str ''qcom'') (URL_AARCH64_FIRMWARE_REPO @ ''/qcom'')
       (dict_of_names [''a680_gmu.bin'', ''a680_sqe.fw''])"

definition gpu_vendor :: firmware where
  "gpu_vendor =
     WindowsDriverFirmware ''gpu/vendor'' (path_of_str (''qcom/'' @ PATH_PLATFORM)) ''qcdx8180''
       (dict_of_names [''qcdxkmsuc8180.mbn'', ''qcvss8180.mbn''])"

definition wlan_vendor :: firmware where
  "wlan_vendor =
     WindowsDriverFirmware ''wlan/vendor'' (path_of_str (''qcom/'' @ PATH_PLATFORM)) ''qcwlan8180''
       (dict_of_names [''wlanmdsp.mbn''])"

definition example_args :: args where
  "example_args = make_args ''/mnt'' ''out''"

text \<open>
  A world whose driver store holds one package directory, \<^verbatim>\<open>qcdx8180-x\<close>, which is
  empty; nothing has been printed yet.
\<close>

definition example_store :: world where
  "example_store =
     \<lparr>fsys =
        [([''mnt''], Dir),
         ([''mnt'', ''Windows''], Dir),
         ([''mnt'', ''Windows'', ''System32''], Dir),
         ([''mnt'', ''Windows'', ''System32'', ''DriverStore''], Dir),
         ([''mnt'', ''Windows'', ''System32'', ''DriverStore'', ''FileRepository''], Dir),
         ([''mnt'', ''Windows'', ''System32'', ''DriverStore'', ''FileRepository'', ''qcdx8180-x''], Dir),
         ([''work''], Dir)],
      trace = []\<rparr>"

text \<open>
  A world after a gather phase: the output tree \<^verbatim>\<open>/work/out\<close> holds the files the
  patches work on, and \<^verbatim>\<open>/tmp\<close> exists.
\<close>

definition example_tree :: world where
  "example_tree =
     \<lparr>fsys =
        [([''tmp''], Dir),
         ([''work''], Dir),
         ([''work'', ''out''], Dir),
         ([''work'', ''out'', ''qcom''], Dir),
         ([''work'', ''out'', ''qcom'', ''XIAOMI''], Dir),
         ([''work'', ''out'', ''qcom'', ''XIAOMI'', ''BOOK124''], Dir),
         ([''work'', ''out'', ''qcom'', ''XIAOMI'', ''BOOK124'', ''qcvss8180.mbn''], File (Bytes ''venus'')),
         ([''work'', ''out'', ''ath10k''], Dir),
         ([''work'', ''out'', ''ath10k'', ''WCN3990''], Dir),
         ([''work'', ''out'', ''ath10k'', ''WCN3990'', ''hw1.0''], Dir),
         ([''work'', ''out'', ''ath10k'', ''WCN3990'', ''hw1.0'', ''boards''], Dir),
         ([''work'', ''out'', ''ath10k'', ''WCN3990'', ''hw1.0'', ''boards'', ''bdwlan.b58''],
            File (Bytes ''board'')),
         ([''work'', ''out'', ''ath10k'', ''WCN3990'', ''hw1.0'', ''firmware-5.bin''],
            File (Bytes ''fw5'')),
         ([''work'', ''out'', ''qca''], Dir),
         ([''work'', ''out'', ''qca'', ''crnv21.bin''], File (Bytes ''nv''))],
      trace = []\<rparr>"

text \<open>The lines printed and the programs run, read off a trace.\<close>

fun printed_lines :: "event list \<Rightarrow> string list" where
  "printed_lines [] = []"
| "printed_lines (Print l # evs) = l # printed_lines evs"
| "printed_lines (_ # evs) = printed_lines evs"

fun programs_run :: "event list \<Rightarrow> string list list" where
  "programs_run [] = []"
| "programs_run (Exec argv f # evs) = argv # programs_run evs"
| "programs_run (_ # evs) = programs_run evs"

text \<open>
  The two statements of the symlink loop on the key \<open>k\<close> of the link: remove what is
  there, then create the link.
\<close>

definition relink :: "string list \<Rightarrow> string \<Rightarrow> action" where
  "relink k target = seq [fs_op (unlink_missing_ok k), fs_op (symlink_to k target)]"

text \<open>The links the symlink patch makes: the key of each link with its target.\<close>

definition qca_links :: "env \<Rightarrow> args \<Rightarrow> (string list \<times> string) list" where
  "qca_links E a =
     map (\<lambda>file. (key E (join_str (join_str (path_out a) ''qca'') (py_replace ''21'' ''01'' file)), file))
       qca_bt_files"

text \<open>
  For a pair \<open>(s, t)\<close> of the file map of a remote-fetch source: the destination path
  and the message that \<^verbatim>\<open>DownloadFirmware.get\<close> logs.
\<close>

definition dl_target :: "args \<Rightarrow> firmware \<Rightarrow> string \<Rightarrow> path" where
  "dl_target a self t = join_str (joinpath (path_out a) (target_directory self)) t"

definition dl_message :: "firmware \<Rightarrow> string \<times> string \<Rightarrow> string" where
  "dl_message self st =
     ''downloading '' @ [CHR 0x27] @ source_url self @ ''/'' @ fst st @ [CHR 0x27] @ '' to '' @ [CHR 0x27]
       @ str_of (join_str (target_directory self) (snd st)) @ [CHR 0x27]"

section \<open>Properties\<close>

subsection \<open>File-map normalization\<close>

lemma fold_update_map_of:
  "map_of (fold (\<lambda>x d. AList.update x x d) xs d) k =
     (if k \<in> set xs then Some k else map_of d k)"
  by (induction xs arbitrary: d) (auto simp: update_conv')

lemma fold_update_distinct:
  "distinct (map fst d) \<Longrightarrow> distinct (map fst (fold (\<lambda>x d. AList.update x x d) xs d))"
  by (induction xs arbitrary: d) (auto simp: distinct_update)

lemma dict_of_names_map_of:
  "map_of (dict_of_names xs) k = (if k \<in> set xs then Some k else None)"
  by (simp add: dict_of_names_def fold_update_map_of)

lemma dict_of_names_distinct: "distinct (map fst (dict_of_names xs))"
  by (simp add: dict_of_names_def fold_update_distinct)

lemma dict_of_names_set: "set (dict_of_names xs) = (\<lambda>x. (x, x)) ` set xs"
proof (rule set_eqI)
  fix kv :: "string \<times> string"
  obtain k v where kv: "kv = (k, v)" by (cases kv)
  have "(k, v) \<in> set (dict_of_names xs) \<longleftrightarrow> map_of (dict_of_names xs) k = Some v"
    using dict_of_names_distinct by simp
  also have "\<dots> \<longleftrightarrow> k \<in> set xs \<and> v = k"
    by (auto simp: dict_of_names_map_of)
  finally show "kv \<in> set (dict_of_names xs) \<longleftrightarrow> kv \<in> (\<lambda>x. (x, x)) ` set xs"
    unfolding kv by auto
qed

lemma dict_of_names_keys: "set (map fst (dict_of_names xs)) = set xs"
  by (simp add: dict_of_names_set image_image)

lemma dict_of_names_length: "length (dict_of_names xs) = card (set xs)"
proof -
  have "length (dict_of_names xs) = length (map fst (dict_of_names xs))" by simp
  also have "\<dots> = card (set (map fst (dict_of_names xs)))"
    using dict_of_names_distinct by (simp only: distinct_card)
  finally show ?thesis by (simp only: dict_of_names_keys)
qed

text \<open>
  C1. For a declaration whose \<^verbatim>\<open>files\<close> argument is a list, the normalized file map
  consists exactly of the pairs \<open>(x, x)\<close> for the names \<open>x\<close> of the list (the identity
  mapping), and both constructors succeed with it. For a dict argument the map is the
  dict itself, unchanged. For an argument of any other type, normalization raises, and
  so does each of the two constructors: the error appears when the source is
  constructed, before any use of the map.
\<close>

theorem filemap_contract:
  "(case v of
      PyList xs \<Rightarrow>
        filemap v = Inr (dict_of_names xs) \<and>
        set (dict_of_names xs) = (\<lambda>x. (x, x)) ` set xs \<and>
        new_WindowsDriverFirmware n td sd v =
          Inr (WindowsDriverFirmware n (path_of_str td) sd (dict_of_names xs)) \<and>
        new_DownloadFirmware n td url v =
          Inr (DownloadFirmware n (path_of_str td) url (dict_of_names xs))
    | PyDict d \<Rightarrow>
        filemap v = Inr d \<and>
        new_WindowsDriverFirmware n td sd v = Inr (WindowsDriverFirmware n (path_of_str td) sd d) \<and>
        new_DownloadFirmware n td url v = Inr (DownloadFirmware n (path_of_str td) url d)
    | _ \<Rightarrow>
        filemap v = Inl ConfigError \<and>
        new_WindowsDriverFirmware n td sd v = Inl ConfigError \<and>
        new_DownloadFirmware n td url v = Inl ConfigError)"
  by (cases v)
     (simp_all add: new_WindowsDriverFirmware_def new_DownloadFirmware_def dict_of_names_set)

text \<open>
  C10. Normalizing a list, with or without repeated names, raises no error; the
  resulting map has one entry for each distinct name of the list: its keys are
  pairwise distinct, its domain is the set of the list's elements, and it has as many
  entries as the list has distinct names.
\<close>

theorem filemap_duplicates_collapse:
  "\<exists>m. filemap (PyList xs) = Inr m \<and> distinct (map fst m) \<and>
       set (map fst m) = set xs \<and> dom (map_of m) = set xs \<and> length m = card (set xs)"
  using dict_of_names_distinct [of xs] dict_of_names_keys [of xs] dict_of_names_length [of xs]
  by (simp add: dom_map_of_conv_image_fst)

subsection \<open>Sequencing, loggers and the two phases\<close>

lemma info_printed: "info log msg w = Ok () (printed (pfx log @ msg) w)"
  by (simp add: info_def emit_def printed_def)

lemma loggers:
  "Logger 0 = Inr root_logger" "sub root_logger = Inr phase_logger"
  "sub phase_logger = Inr step_logger"
  by (simp_all add: Logger_def sub_def log_pfx_def root_logger_def phase_logger_def step_logger_def)

lemma pfxs:
  "pfx root_logger = ''==> ''" "pfx phase_logger = '' -> ''" "pfx step_logger = ''    ''"
  by (simp_all add: root_logger_def phase_logger_def step_logger_def)

lemma raises_world_of: "raises e r \<Longrightarrow> r = Raised e (world_of r)"
  by (cases r) (simp_all add: raises_def world_of_def)

lemma completes_world_of: "completes r \<Longrightarrow> r = Ok () (world_of r)"
  by (cases r) (simp_all add: completes_def world_of_def)

lemma seq_append:
  "seq (xs @ ys) w = (case seq xs w of Ok _ u \<Rightarrow> seq ys u | Raised e u \<Rightarrow> Raised e u)"
  by (induction xs arbitrary: w) (auto split: result.splits)

lemma seq_Ok_split:
  assumes "seq (xs @ y # zs) w = Ok () w'"
  shows "\<exists>u v. seq xs w = Ok () u \<and> y u = Ok () v \<and> seq zs v = Ok () w'"
  using assms by (auto simp: seq_append split: result.splits)

lemma seq_Raised_at:
  assumes "seq xs w = Ok () u" and "y u = Raised e v"
  shows "seq (xs @ y # zs) w = Raised e v"
  using assms by (simp add: seq_append)

lemma gather_step_phase:
  "gather_step E phase_logger a s u = get E s step_logger a (printed ('' -> '' @ name s) u)"
  by (cases "get E s step_logger a (printed ('' -> '' @ name s) u)")
     (simp_all add: gather_step_def info_printed loggers pfxs)

lemma pipeline_phases:
  "pipeline E a srcs ps w =
     (case gather E phase_logger a srcs (printed ''==> retrieving base firmware files'' w) of
        Raised e v \<Rightarrow> Raised e v
      | Ok _ v \<Rightarrow>
          seq [info root_logger ''patching firmware files'', patch phase_logger a ps,
               info root_logger ''done!''] v)"
proof (cases "gather E phase_logger a srcs (printed ''==> retrieving base firmware files'' w)")
  case (Ok x v)
  then show ?thesis
    by (cases "patch phase_logger a ps (printed ''==> patching firmware files'' v)")
       (simp_all add: pipeline_def loggers info_printed pfxs)
next
  case (Raised e v)
  then show ?thesis
    by (simp add: pipeline_def loggers info_printed pfxs)
qed

subsection \<open>Gathering stops at the first failure, and patching waits for it\<close>

text \<open>
  C2. Take any source \<open>s\<close> of the registry, \<open>srcs = pre @ s # post\<close>, and any run of the
  pipeline. (1) If the gather phase raises, the pipeline ends with that very exception
  in that very world: the patch phase is never entered. (2) If the gather phase
  returns, then the sources before \<open>s\<close>, \<open>s\<close> itself and the sources after \<open>s\<close> have all
  completed their retrieval, in this order, and the patch phase starts in the world the
  last of them left. (3) If the sources before \<open>s\<close> complete and the retrieval of \<open>s\<close>
  raises, leaving the world \<open>v\<close>, then the gather phase and the pipeline raise the same
  exception in the same world \<open>v\<close>, whatever \<open>post\<close> and the patches are: no later source
  is attempted and no patch runs; the process ends with status 1.
\<close>

theorem pipeline_fail_fast:
  assumes "srcs = pre @ s # post"
  shows
   "(\<forall>e v. gather E phase_logger a srcs (printed ''==> retrieving base firmware files'' w) = Raised e v
        \<longrightarrow> pipeline E a srcs ps w = Raised e v) \<and>
    (\<forall>v. gather E phase_logger a srcs (printed ''==> retrieving base firmware files'' w) = Ok () v
        \<longrightarrow> (\<exists>u u'. gather E phase_logger a pre (printed ''==> retrieving base firmware files'' w) = Ok () u \<and>
                    get E s step_logger a (printed ('' -> '' @ name s) u) = Ok () u' \<and>
                    gather E phase_logger a post u' = Ok () v) \<and>
            pipeline E a srcs ps w =
              seq [info root_logger ''patching firmware files'', patch phase_logger a ps,
                   info root_logger ''done!''] v) \<and>
    (\<forall>u e v. gather E phase_logger a pre (printed ''==> retrieving base firmware files'' w) = Ok () u \<and>
            get E s step_logger a (printed ('' -> '' @ name s) u) = Raised e v
        \<longrightarrow> gather E phase_logger a srcs (printed ''==> retrieving base firmware files'' w) = Raised e v \<and>
            pipeline E a srcs ps w = Raised e v \<and>
            (euid \<noteq> 0 \<and> a = make_args windows output
               \<longrightarrow> main E euid windows output srcs ps w = (1, v)))"
proof (intro conjI allI impI)
  fix e v
  assume "gather E phase_logger a srcs (printed ''==> retrieving base firmware files'' w) = Raised e v"
  then show "pipeline E a srcs ps w = Raised e v" by (simp add: pipeline_phases)
next
  fix v
  assume ok: "gather E phase_logger a srcs (printed ''==> retrieving base firmware files'' w) = Ok () v"
  then show "pipeline E a srcs ps w =
              seq [info root_logger ''patching firmware files'', patch phase_logger a ps,
                   info root_logger ''done!''] v"
    by (simp add: pipeline_phases)
  from ok assms
  have "seq (map (gather_step E phase_logger a) pre @ gather_step E phase_logger a s
               # map (gather_step E phase_logger a) post)
          (printed ''==> retrieving base firmware files'' w) = Ok () v"
    by (simp add: gather_def)
  from seq_Ok_split [OF this]
  show "\<exists>u u'. gather E phase_logger a pre (printed ''==> retrieving base firmware files'' w) = Ok () u \<and>
                    get E s step_logger a (printed ('' -> '' @ name s) u) = Ok () u' \<and>
                    gather E phase_logger a post u' = Ok () v"
    by (simp add: gather_def gather_step_phase)
next
  fix u e v
  assume h: "gather E phase_logger a pre (printed ''==> retrieving base firmware files'' w) = Ok () u \<and>
            get E s step_logger a (printed ('' -> '' @ name s) u) = Raised e v"
  then have "seq (map (gather_step E phase_logger a) pre @ gather_step E phase_logger a s
               # map (gather_step E phase_logger a) post)
          (printed ''==> retrieving base firmware files'' w) = Raised e v"
    by (intro seq_Raised_at [where u = u]) (simp_all add: gather_def gather_step_phase)
  then show g: "gather E phase_logger a srcs (printed ''==> retrieving base firmware files'' w) = Raised e v"
    using assms by (simp add: gather_def)
  then show p: "pipeline E a srcs ps w = Raised e v" by (simp add: pipeline_phases)
  assume "euid \<noteq> 0 \<and> a = make_args windows output"
  with p show "main E euid windows output srcs ps w = (1, v)"
    by (simp add: main_def)
qed

text \<open>
  A run of C2 with two sources: the driver-store directory of the first, \<^verbatim>\<open>gpu/vendor\<close>,
  is found but holds no file, so its first copy raises \<^verbatim>\<open>FileNotFoundError\<close>. The
  process ends with status 1 in the world that copy left; three lines were printed
  (the phase, the source's name, the copy), none for the second source or a patch.
  And a run whose gather phase completes: the registry holding \<^verbatim>\<open>gpu/base\<close> alone.
\<close>

theorem pipeline_fail_fast_witness:
  "raises FileNotFoundError
     (get example_env gpu_vendor step_logger example_args
        (printed ('' -> '' @ name gpu_vendor)
           (printed ''==> retrieving base firmware files'' example_store))) \<and>
   main example_env 1000 ''/mnt'' ''out'' [gpu_vendor, gpu_base] (patches example_env) example_store =
     (1, world_of (get example_env gpu_vendor step_logger example_args
            (printed ('' -> '' @ name gpu_vendor)
               (printed ''==> retrieving base firmware files'' example_store)))) \<and>
   printed_lines (trace (snd (main example_env 1000 ''/mnt'' ''out'' [gpu_vendor, gpu_base]
                                (patches example_env) example_store)))
     = [''==> retrieving base firmware files'', '' -> gpu/vendor'',
        ''    copying '' @ [CHR 0x27] @
          ''/mnt/Windows/System32/DriverStore/FileRepository/qcdx8180-x/qcdxkmsuc8180.mbn''
          @ [CHR 0x27] @ '' to '' @ [CHR 0x27] @ ''qcom/XIAOMI/BOOK124/qcdxkmsuc8180.mbn'' @ [CHR 0x27]] \<and>
   completes (gather example_env phase_logger example_args [gpu_base]
                (printed ''==> retrieving base firmware files'' example_store)) \<and>
   completes (get example_env gpu_base step_logger example_args
                (printed '' -> gpu/base'' (printed ''==> retrieving base firmware files'' example_store)))"
proof -
  let ?w0 = "printed ''==> retrieving base firmware files'' example_store"
  let ?r = "get example_env gpu_vendor step_logger example_args
              (printed ('' -> '' @ name gpu_vendor) ?w0)"
  have pre: "gather example_env phase_logger example_args [] ?w0 = Ok () ?w0"
    by (simp add: gather_def)
  have r: "raises FileNotFoundError ?r"
    by code_simp
  have fail: "?r = Raised FileNotFoundError (world_of ?r)"
    using r by (rule raises_world_of)
  have a: "(1000::nat) \<noteq> 0 \<and> example_args = make_args ''/mnt'' ''out''"
    by (simp add: example_args_def)
  have m: "main example_env 1000 ''/mnt'' ''out'' ([] @ gpu_vendor # [gpu_base]) (patches example_env) example_store
          = (1, world_of ?r)"
    using pipeline_fail_fast [of "[] @ gpu_vendor # [gpu_base]" "[]" gpu_vendor "[gpu_base]"
            example_env example_args example_store "patches example_env" 1000 "''/mnt''" "''out''"]
          pre fail a
    by blast
  have l: "printed_lines (trace (world_of ?r))
     = [''==> retrieving base firmware files'', '' -> gpu/vendor'',
        ''    copying '' @ [CHR 0x27] @
          ''/mnt/Windows/System32/DriverStore/FileRepository/qcdx8180-x/qcdxkmsuc8180.mbn''
          @ [CHR 0x27] @ '' to '' @ [CHR 0x27] @ ''qcom/XIAOMI/BOOK124/qcdxkmsuc8180.mbn'' @ [CHR 0x27]]"
    by code_simp
  have g: "completes (gather example_env phase_logger example_args [gpu_base] ?w0)"
    by code_simp
  have "\<exists>u u'. gather example_env phase_logger example_args [] ?w0 = Ok () u \<and>
          get example_env gpu_base step_logger example_args (printed ('' -> '' @ name gpu_base) u) = Ok () u'"
    using pipeline_fail_fast [of "[] @ gpu_base # []" "[]" gpu_base "[]"
            example_env example_args example_store "[]" 1000 "''/mnt''" "''out''"]
          completes_world_of [OF g]
    by fastforce
  then have "completes (get example_env gpu_base step_logger example_args
                (printed ('' -> '' @ name gpu_base) ?w0))"
    using pre by (auto simp: completes_def)
  then have "completes (get example_env gpu_base step_logger example_args (printed '' -> gpu/base'' ?w0))"
    by (simp add: gpu_base_def)
  with r m l g show ?thesis by simp
qed

subsection \<open>Directory resolution\<close>

lemma name_of_child: "name_of (child d n) = n"
  by (simp add: name_of_def child_def)

lemma first_match_split:
  "\<forall>m \<in> set before. \<not> prefix pre m \<Longrightarrow> prefix pre n \<Longrightarrow>
   first_match pre (map (child d) (before @ n # after)) = Some (child d n)"
  by (induction before) (simp_all add: name_of_child)

lemma first_match_none:
  "\<forall>m \<in> set names. \<not> prefix pre m \<Longrightarrow> first_match pre (map (child d) names) = None"
  by (induction names) (simp_all add: name_of_child)

lemma find_source_directory_listing:
  "iterdir (key E (path_wdsfr a)) f = Inr names \<Longrightarrow>
   find_source_directory E self a f =
     Inr (first_match (source_directory self) (map (child (path_wdsfr a)) names))"
  by (simp add: find_source_directory_def)

lemma filter_single_split:
  "filter P xs = [n] \<Longrightarrow>
   \<exists>before after. xs = before @ n # after \<and> (\<forall>m \<in> set before. \<not> P m) \<and> P n"
proof (induction xs)
  case Nil
  then show ?case by simp
next
  case (Cons x xs)
  show ?case
  proof (cases "P x")
    case True
    with Cons.prems have "x = n" by simp
    with True have "x # xs = [] @ n # xs \<and> (\<forall>m \<in> set []. \<not> P m) \<and> P n" by simp
    then show ?thesis by blast
  next
    case False
    with Cons obtain before after where
      "xs = before @ n # after" "\<forall>m \<in> set before. \<not> P m" "P n" by auto
    with False have "x # xs = (x # before) @ n # after \<and> (\<forall>m \<in> set (x # before). \<not> P m) \<and> P n"
      by simp
    then show ?thesis by blast
  qed
qed

text \<open>
  C5, as the code has it. Let \<open>names\<close> be the entries of the driver-store root in the
  order the system enumerates them. Resolution selects the first entry of that
  enumeration whose name starts with the declared prefix: if \<open>n\<close> starts with the
  prefix and no entry enumerated before \<open>n\<close> does, the result is the entry \<open>n\<close>. In
  particular, when exactly one entry starts with the prefix, that entry is selected,
  whatever the other entries are and wherever they are enumerated.
\<close>

theorem resolution_first_enumerated:
  assumes "iterdir (key E (path_wdsfr a)) f = Inr names"
  shows
   "(\<forall>before n after.
        names = before @ n # after \<and> prefix (source_directory self) n \<and>
        (\<forall>m \<in> set before. \<not> prefix (source_directory self) m)
        \<longrightarrow> find_source_directory E self a f = Inr (Some (child (path_wdsfr a) n))) \<and>
    (\<forall>n. filter (prefix (source_directory self)) names = [n]
        \<longrightarrow> find_source_directory E self a f = Inr (Some (child (path_wdsfr a) n)))"
proof -
  have split: "find_source_directory E self a f = Inr (Some (child (path_wdsfr a) n))"
    if "names = before @ n # after" "prefix (source_directory self) n"
       "\<forall>m \<in> set before. \<not> prefix (source_directory self) m" for before n after
    using that first_match_split [of before "source_directory self" n "path_wdsfr a" after]
    by (simp add: find_source_directory_listing [OF assms])
  have "find_source_directory E self a f = Inr (Some (child (path_wdsfr a) n))"
    if "filter (prefix (source_directory self)) names = [n]" for n
    using filter_single_split [OF that] split by blast
  with split show ?thesis by blast
qed

text \<open>
  The entry the code selects need not be the first in lexicographic order: with two
  matching entries enumerated as \<^verbatim>\<open>qcwlan8180-b\<close>, \<^verbatim>\<open>qcwlan8180-a\<close>, the code selects
  \<^verbatim>\<open>qcwlan8180-b\<close>, while the first in lexicographic order is \<^verbatim>\<open>qcwlan8180-a\<close>.
\<close>

theorem resolution_not_lexicographic:
  "find_source_directory example_env
     (WindowsDriverFirmware ''wlan/vendor'' (Path False [''qcom'']) ''qcwlan8180''
        [(''wlanmdsp.mbn'', ''wlanmdsp.mbn'')])
     \<lparr>path_wdsfr = Path True [''store''], path_out = Path False [''out'']\<rparr>
     [([''store''], Dir), ([''store'', ''qcwlan8180-b''], Dir), ([''store'', ''qcwlan8180-a''], Dir)]
   = Inr (Some (Path True [''store'', ''qcwlan8180-b''])) \<and>
   iterdir [''store'']
     [([''store''], Dir), ([''store'', ''qcwlan8180-b''], Dir), ([''store'', ''qcwlan8180-a''], Dir)]
   = Inr [''qcwlan8180-b'', ''qcwlan8180-a''] \<and>
   lexicographic_first_match ''qcwlan8180'' [''qcwlan8180-b'', ''qcwlan8180-a'']
   = Some ''qcwlan8180-a''"
  by code_simp

text \<open>
  A run of C5: the only entry starting with \<^verbatim>\<open>qcwlan8180\<close> is selected, between two
  entries that do not match.
\<close>

theorem resolution_first_enumerated_witness:
  "iterdir (key example_env (Path True [''store'']))
     [([''store''], Dir), ([''store'', ''other''], Dir), ([''store'', ''qcwlan8180-v2''], Dir),
      ([''store'', ''zz''], Dir)]
   = Inr [''other'', ''qcwlan8180-v2'', ''zz''] \<and>
   filter (prefix ''qcwlan8180'') [''other'', ''qcwlan8180-v2'', ''zz''] = [''qcwlan8180-v2''] \<and>
   find_source_directory example_env
     (WindowsDriverFirmware ''wlan/vendor'' (Path False [''qcom'']) ''qcwlan8180''
        [(''wlanmdsp.mbn'', ''wlanmdsp.mbn'')])
     \<lparr>path_wdsfr = Path True [''store''], path_out = Path False [''out'']\<rparr>
     [([''store''], Dir), ([''store'', ''other''], Dir), ([''store'', ''qcwlan8180-v2''], Dir),
      ([''store'', ''zz''], Dir)]
   = Inr (Some (Path True [''store'', ''qcwlan8180-v2'']))"
proof -
  let ?a = "\<lparr>path_wdsfr = Path True [''store''], path_out = Path False [''out'']\<rparr>"
  let ?f = "[([''store''], Dir), ([''store'', ''other''], Dir), ([''store'', ''qcwlan8180-v2''], Dir),
      ([''store'', ''zz''], Dir)]"
  let ?self = "WindowsDriverFirmware ''wlan/vendor'' (Path False [''qcom'']) ''qcwlan8180''
        [(''wlanmdsp.mbn'', ''wlanmdsp.mbn'')]"
  have l: "iterdir (key example_env (path_wdsfr ?a)) ?f = Inr [''other'', ''qcwlan8180-v2'', ''zz'']"
    by code_simp
  have m: "filter (prefix (source_directory ?self)) [''other'', ''qcwlan8180-v2'', ''zz''] = [''qcwlan8180-v2'']"
    by code_simp
  from resolution_first_enumerated [OF l, of ?self] m
  have "find_source_directory example_env ?self ?a ?f = Inr (Some (child (path_wdsfr ?a) ''qcwlan8180-v2''))"
    by blast
  with l m show ?thesis by (simp add: child_def)
qed

subsection \<open>A prefix that matches no entry\<close>

lemma get_unresolved:
  assumes "iterdir (key E (path_wdsfr a)) (fsys u) = Inr names"
      and "\<forall>n \<in> set names. \<not> prefix sd n"
  shows "find_source_directory E (WindowsDriverFirmware nm td sd fm) a (fsys u) = Inr None"
    and "fm \<noteq> [] \<Longrightarrow> get E (WindowsDriverFirmware nm td sd fm) log a u = Raised TypeError u"
    and "fm = [] \<Longrightarrow> get E (WindowsDriverFirmware nm td sd fm) log a u = Ok () u"
proof -
  show r: "find_source_directory E (WindowsDriverFirmware nm td sd fm) a (fsys u) = Inr None"
    using assms by (simp add: find_source_directory_listing first_match_none)
  show "get E (WindowsDriverFirmware nm td sd fm) log a u = Raised TypeError u" if "fm \<noteq> []"
  proof -
    from that obtain s t rest where "fm = (s, t) # rest" by (cases fm) auto
    with r show ?thesis by simp
  qed
  show "get E (WindowsDriverFirmware nm td sd fm) log a u = Ok () u" if "fm = []"
    using r that by simp
qed

text \<open>
  C4, as the code has it. Let the driver-store root be a directory none of whose
  entries starts with the declared prefix of a local-copy source. Resolution does not
  fail: it returns no directory. With an empty file map the retrieval then completes
  and changes nothing. With a non-empty file map the retrieval raises \<^verbatim>\<open>TypeError\<close>,
  at the first statement of the copy loop (joining the first source name to the missing
  directory), before any access to a file: the world is left as it was, no directory
  is created and nothing is printed. This exception aborts the pipeline: when the
  sources before this one have completed, the pipeline raises \<^verbatim>\<open>TypeError\<close> in the
  world where only the source's name has been printed since, whatever sources and
  patches follow.
\<close>

theorem unresolved_directory_type_error:
  assumes "iterdir (key E (path_wdsfr a)) (fsys u) = Inr names"
      and "\<forall>n \<in> set names. \<not> prefix sd n"
      and "self = WindowsDriverFirmware nm td sd fm"
  shows
   "find_source_directory E self a (fsys u) = Inr None \<and>
    (fm = [] \<longrightarrow> get E self log a u = Ok () u) \<and>
    (fm \<noteq> [] \<longrightarrow>
       get E self log a u = Raised TypeError u \<and>
       (\<forall>pre post ps w.
          gather E phase_logger a pre (printed ''==> retrieving base firmware files'' w) = Ok () u
          \<longrightarrow> pipeline E a (pre @ self # post) ps w = Raised TypeError (printed ('' -> '' @ nm) u)))"
proof (intro conjI impI allI)
  show "find_source_directory E self a (fsys u) = Inr None"
    using get_unresolved(1) [OF assms(1,2)] assms(3) by simp
  show "get E self log a u = Ok () u" if "fm = []"
    using get_unresolved(3) [OF assms(1,2) that] assms(3) by simp
  assume ne: "fm \<noteq> []"
  show "get E self log a u = Raised TypeError u"
    using get_unresolved(2) [OF assms(1,2) ne] assms(3) by simp
  fix pre post ps w
  assume pre: "gather E phase_logger a pre (printed ''==> retrieving base firmware files'' w) = Ok () u"
  have l: "iterdir (key E (path_wdsfr a)) (fsys (printed ('' -> '' @ nm) u)) = Inr names"
    using assms(1) by (simp add: printed_def)
  have "get E self step_logger a (printed ('' -> '' @ name self) u)
          = Raised TypeError (printed ('' -> '' @ nm) u)"
    using get_unresolved(2) [OF l assms(2) ne] assms(3) by simp
  then have "gather_step E phase_logger a self u = Raised TypeError (printed ('' -> '' @ nm) u)"
    by (simp add: gather_step_phase)
  with pre have "gather E phase_logger a (pre @ self # post)
                   (printed ''==> retrieving base firmware files'' w)
                 = Raised TypeError (printed ('' -> '' @ nm) u)"
    unfolding gather_def map_append list.map by (rule seq_Raised_at)
  then show "pipeline E a (pre @ self # post) ps w = Raised TypeError (printed ('' -> '' @ nm) u)"
    by (simp add: pipeline_phases)
qed

text \<open>
  The claim's not-found condition does not occur. In the example store no entry starts
  with \<^verbatim>\<open>qcwlan8180\<close>: the retrieval of \<^verbatim>\<open>wlan/vendor\<close> raises \<^verbatim>\<open>TypeError\<close>, not
  \<^verbatim>\<open>FileNotFoundError\<close>, and leaves the world untouched; the same source with an empty
  file map does not fail at all.
\<close>

theorem unresolved_directory_counterexample:
  "find_source_directory example_env wlan_vendor example_args (fsys example_store) = Inr None \<and>
   get example_env wlan_vendor step_logger example_args example_store
     = Raised TypeError example_store \<and>
   \<not> raises FileNotFoundError
       (get example_env wlan_vendor step_logger example_args example_store) \<and>
   get example_env
     (WindowsDriverFirmware ''wlan/vendor'' (path_of_str (''qcom/'' @ PATH_PLATFORM)) ''qcwlan8180'' [])
     step_logger example_args example_store
     = Ok () example_store"
  by code_simp

text \<open>
  A run of C4: \<^verbatim>\<open>wlan/vendor\<close> first, \<^verbatim>\<open>gpu/base\<close> second, on the example store. The
  pipeline raises \<^verbatim>\<open>TypeError\<close> after printing the phase and the source's name.
\<close>

theorem unresolved_directory_type_error_witness:
  "iterdir (key example_env (path_wdsfr example_args)) (fsys example_store) = Inr [''qcdx8180-x''] \<and>
   pipeline example_env example_args [wlan_vendor, gpu_base] (patches example_env) example_store
     = Raised TypeError
         (printed '' -> wlan/vendor'' (printed ''==> retrieving base firmware files'' example_store))"
proof -
  let ?w0 = "printed ''==> retrieving base firmware files'' example_store"
  have l: "iterdir (key example_env (path_wdsfr example_args)) (fsys ?w0) = Inr [''qcdx8180-x'']"
    by code_simp
  have l': "iterdir (key example_env (path_wdsfr example_args)) (fsys example_store) = Inr [''qcdx8180-x'']"
    by code_simp
  have n: "\<forall>n \<in> set [''qcdx8180-x'']. \<not> prefix ''qcwlan8180'' n"
    by simp
  have s: "wlan_vendor =
      WindowsDriverFirmware ''wlan/vendor'' (path_of_str (''qcom/'' @ PATH_PLATFORM)) ''qcwlan8180''
        (dict_of_names [''wlanmdsp.mbn''])"
    by (simp add: wlan_vendor_def)
  have ne: "dict_of_names [''wlanmdsp.mbn''] \<noteq> []"
    by (simp add: dict_of_names_def)
  have pre: "gather example_env phase_logger example_args [] ?w0 = Ok () ?w0"
    by (simp add: gather_def)
  from unresolved_directory_type_error [OF l n s, of step_logger] ne pre
  have "pipeline example_env example_args ([] @ wlan_vendor # [gpu_base]) (patches example_env) example_store
          = Raised TypeError (printed ('' -> '' @ ''wlan/vendor'') ?w0)"
    by blast
  with l' show ?thesis by simp
qed


subsection \<open>Exit statuses of the external tools\<close>

lemma force_status_fields:
  "wd (force_status k E) = wd E" "script_dir (force_status k E) = script_dir E"
  "tmp_name (force_status k E) = tmp_name E" "urlopen (force_status k E) = urlopen E"
  by (simp_all add: force_status_def)

lemma force_status_key: "key (force_status k E) = key E"
  by (rule ext) (simp add: key_def force_status_fields)

lemma force_status_call:
  "discard (subprocess_call (force_status k E) argv) w = discard (subprocess_call E argv) w"
  by (simp add: discard_def subprocess_call_def force_status_def Let_def split: sum.splits prod.splits)

lemma venus_status:
  "patch_venus_extract (force_status k E) log a w = patch_venus_extract E log a w"
  by (simp add: patch_venus_extract_def PATH_THIRDPARTY_def force_status_fields force_status_key
        force_status_call Let_def split: result.splits)

lemma board_status:
  "patch_ath10k_board (force_status k E) log a w = patch_ath10k_board E log a w"
proof -
  have "discard (subprocess_call (force_status k E) argv) = discard (subprocess_call E argv)" for argv
    by (intro ext force_status_call)
  then show ?thesis
    by (simp add: patch_ath10k_board_def ath10k_bdencoder_def path_boards_def path_board_out_def
          board_spec_def PATH_THIRDPARTY_def force_status_fields force_status_key Let_def)
qed

lemma firmware_status:
  "patch_ath10k_firmware (force_status k E) log a w = patch_ath10k_firmware E log a w"
  by (simp add: patch_ath10k_firmware_def PATH_THIRDPARTY_def force_status_fields
        force_status_call Let_def)

lemma symlinks_status:
  "patch_qca_bt_symlinks (force_status k E) log a w = patch_qca_bt_symlinks E log a w"
proof -
  have "symlink_step (force_status k E) = symlink_step E"
    by (intro ext) (simp add: symlink_step_def force_status_key)
  then show ?thesis by (simp add: patch_qca_bt_symlinks_def)
qed

lemma patches_status: "patches (force_status k E) = patches E"
proof -
  have "patch_venus_extract (force_status k E) = patch_venus_extract E"
       "patch_ath10k_board (force_status k E) = patch_ath10k_board E"
       "patch_ath10k_firmware (force_status k E) = patch_ath10k_firmware E"
       "patch_qca_bt_symlinks (force_status k E) = patch_qca_bt_symlinks E"
    by (intro ext venus_status board_status firmware_status symlinks_status)+
  then show ?thesis by (simp add: patches_def)
qed

lemma copy_step_status: "copy_step (force_status k E) log a self base st = copy_step E log a self base st"
  by (cases base; cases st) (simp_all add: force_status_key)

lemma download_step_status:
  "download_step (force_status k E) log a self st = download_step E log a self st"
  by (cases st) (simp add: force_status_key urlretrieve_def force_status_fields)

lemma get_status: "get (force_status k E) s log a = get E s log a"
proof (cases s)
  case (WindowsDriverFirmware n td sd fm)
  have c: "copy_step (force_status k E) = copy_step E"
    by (intro ext copy_step_status)
  have f: "find_source_directory (force_status k E) = find_source_directory E"
    by (intro ext) (simp add: find_source_directory_def force_status_key)
  show ?thesis
    unfolding WindowsDriverFirmware get.simps c f by (rule refl)
next
  case (DownloadFirmware n td url fm)
  have "download_step (force_status k E) log a (DownloadFirmware n td url fm)
          = download_step E log a (DownloadFirmware n td url fm)"
    by (intro ext download_step_status)
  then show ?thesis using DownloadFirmware by simp
qed

lemma gather_status: "gather (force_status k E) log a srcs = gather E log a srcs"
proof -
  have g: "get (force_status k E) = get E"
    by (intro ext) (simp add: get_status)
  have "gather_step (force_status k E) log a = gather_step E log a"
    unfolding gather_step_def g by (rule refl)
  then show ?thesis by (simp add: gather_def)
qed

lemma pipeline_status:
  "pipeline (force_status k E) a srcs ps = pipeline E a srcs ps"
proof -
  have g: "gather (force_status k E) = gather E"
    by (intro ext) (simp add: gather_status)
  show ?thesis unfolding pipeline_def g by (rule refl)
qed

lemma patch_step_phase:
  "patch_step phase_logger a p u = apply_patch p step_logger a (printed ('' -> '' @ patch_name p) u)"
  by (cases "apply_patch p step_logger a (printed ('' -> '' @ patch_name p) u)")
     (simp_all add: patch_step_def info_printed loggers pfxs)

text \<open>
  C3, as the code has it. The patch steps that run an external tool drop its exit
  status: each of them has the same outcome in an environment where every tool returns
  the status \<open>k\<close> as in the environment itself, whatever \<open>k\<close> is, and so does the whole
  process, exit status included. What does unwind is an exception: when the gather
  phase and the patches before \<open>p\<close> have completed and the patch \<open>p\<close> raises (a tool that
  cannot be started, a file operation that fails), the patch phase and the pipeline
  raise the same exception in the same world, whatever patches follow \<open>p\<close>, and the
  process ends with status 1.
\<close>

theorem exit_status_ignored:
  "patch_venus_extract (force_status k E) log a w = patch_venus_extract E log a w \<and>
   patch_ath10k_board (force_status k E) log a w = patch_ath10k_board E log a w \<and>
   patch_ath10k_firmware (force_status k E) log a w = patch_ath10k_firmware E log a w \<and>
   main (force_status k E) euid windows output srcs (patches (force_status k E)) w
     = main E euid windows output srcs (patches E) w \<and>
   (\<forall>pre p post g u e v.
      gather E phase_logger a srcs (printed ''==> retrieving base firmware files'' w) = Ok () g \<and>
      patch phase_logger a pre (printed ''==> patching firmware files'' g) = Ok () u \<and>
      apply_patch p step_logger a (printed ('' -> '' @ patch_name p) u) = Raised e v
      \<longrightarrow> patch phase_logger a (pre @ p # post) (printed ''==> patching firmware files'' g) = Raised e v \<and>
          pipeline E a srcs (pre @ p # post) w = Raised e v \<and>
          (euid \<noteq> 0 \<and> a = make_args windows output
             \<longrightarrow> main E euid windows output srcs (pre @ p # post) w = (1, v)))"
proof (intro conjI allI impI)
  show "main (force_status k E) euid windows output srcs (patches (force_status k E)) w
     = main E euid windows output srcs (patches E) w"
    by (simp add: main_def pipeline_status patches_status)
next
  fix pre p post g u e v
  assume h: "gather E phase_logger a srcs (printed ''==> retrieving base firmware files'' w) = Ok () g \<and>
      patch phase_logger a pre (printed ''==> patching firmware files'' g) = Ok () u \<and>
      apply_patch p step_logger a (printed ('' -> '' @ patch_name p) u) = Raised e v"
  then have "seq (map (patch_step phase_logger a) pre @ patch_step phase_logger a p
                    # map (patch_step phase_logger a) post)
               (printed ''==> patching firmware files'' g) = Raised e v"
    by (intro seq_Raised_at [where u = u]) (simp_all add: patch_def patch_step_phase)
  then show pa: "patch phase_logger a (pre @ p # post) (printed ''==> patching firmware files'' g) = Raised e v"
    by (simp add: patch_def)
  with h show pi: "pipeline E a srcs (pre @ p # post) w = Raised e v"
    by (simp add: pipeline_phases info_printed pfxs)
  assume "euid \<noteq> 0 \<and> a = make_args windows output"
  with pi show "main E euid windows output srcs (pre @ p # post) w = (1, v)"
    by (simp add: main_def)
qed (rule venus_status board_status firmware_status)+

text \<open>
  A non-zero exit status is not a failure for the script. In the example environment
  every tool exits with status 1; on the example tree the process nevertheless ends
  with status 0, after running all three tools and all four patches.
\<close>

theorem nonzero_exit_status_counterexample:
  "(\<forall>argv f. run example_env argv f = Inr (1, f)) \<and>
   fst (main example_env 1000 ''/mnt'' ''out'' [] (patches example_env) example_tree) = 0 \<and>
   printed_lines (trace (snd (main example_env 1000 ''/mnt'' ''out'' [] (patches example_env) example_tree)))
     = [''==> retrieving base firmware files'', ''==> patching firmware files'',
        '' -> venus'', '' -> ath10k/board-2.bin'', '' -> ath10k/firmware-5.bin'',
        '' -> qca/bt'', ''==> done!''] \<and>
   programs_run (trace (snd (main example_env 1000 ''/mnt'' ''out'' [] (patches example_env) example_tree)))
     = [[''python'', ''/opt/fw/scripts/third-party/qcom-mbn-tools/pil-splitter.py'',
         ''out/qcom/XIAOMI/BOOK124/qcvss8180.mbn'', ''out/qcom/venus-5.2/venus''],
        [''python'',
         ''/opt/fw/scripts/third-party/qca-swiss-army-knife/tools/scripts/ath10k/ath10k-bdencoder'',
         ''-c'', ''/tmp/tmpspec'', ''-o'', ''/work/out/ath10k/WCN3990/hw1.0/board-2.bin''],
        [''python'',
         ''/opt/fw/scripts/third-party/qca-swiss-army-knife/tools/scripts/ath10k/ath10k-fwencoder'',
         ''--modify'',
         ''--features=wowlan,mgmt-tx-by-ref,non-bmi,single-chan-info-per-channel'',
         ''out/ath10k/WCN3990/hw1.0/firmware-5.bin'']]"
proof -
  have "\<forall>argv f. run example_env argv f = Inr (1, f)"
    by (simp add: example_env_def)
  moreover have "fst (main example_env 1000 ''/mnt'' ''out'' [] (patches example_env) example_tree) = 0"
    by code_simp
  moreover have "printed_lines (trace (snd (main example_env 1000 ''/mnt'' ''out'' [] (patches example_env) example_tree)))
     = [''==> retrieving base firmware files'', ''==> patching firmware files'',
        '' -> venus'', '' -> ath10k/board-2.bin'', '' -> ath10k/firmware-5.bin'',
        '' -> qca/bt'', ''==> done!'']"
    by code_simp
  moreover have "programs_run (trace (snd (main example_env 1000 ''/mnt'' ''out'' [] (patches example_env) example_tree)))
     = [[''python'', ''/opt/fw/scripts/third-party/qcom-mbn-tools/pil-splitter.py'',
         ''out/qcom/XIAOMI/BOOK124/qcvss8180.mbn'', ''out/qcom/venus-5.2/venus''],
        [''python'',
         ''/opt/fw/scripts/third-party/qca-swiss-army-knife/tools/scripts/ath10k/ath10k-bdencoder'',
         ''-c'', ''/tmp/tmpspec'', ''-o'', ''/work/out/ath10k/WCN3990/hw1.0/board-2.bin''],
        [''python'',
         ''/opt/fw/scripts/third-party/qca-swiss-army-knife/tools/scripts/ath10k/ath10k-fwencoder'',
         ''--modify'',
         ''--features=wowlan,mgmt-tx-by-ref,non-bmi,single-chan-info-per-channel'',
         ''out/ath10k/WCN3990/hw1.0/firmware-5.bin'']]"
    by code_simp
  ultimately show ?thesis by blast
qed

text \<open>
  A run of C3 on the example store, where the file the first patch copies is missing:
  \<^verbatim>\<open>patch_venus_extract\<close> raises \<^verbatim>\<open>FileNotFoundError\<close>, the process ends with status 1 in
  the world the patch left, and no line is printed for a later patch.
\<close>

theorem exit_status_ignored_witness:
  "raises FileNotFoundError
     (patch_venus_extract example_env step_logger example_args
        (printed '' -> venus'' (printed ''==> patching firmware files''
           (printed ''==> retrieving base firmware files'' example_store)))) \<and>
   main example_env 1000 ''/mnt'' ''out'' [] (patches example_env) example_store
     = (1, world_of (patch_venus_extract example_env step_logger example_args
        (printed '' -> venus'' (printed ''==> patching firmware files''
           (printed ''==> retrieving base firmware files'' example_store))))) \<and>
   printed_lines (trace (snd (main example_env 1000 ''/mnt'' ''out'' [] (patches example_env) example_store)))
     = [''==> retrieving base firmware files'', ''==> patching firmware files'', '' -> venus'']"
proof -
  let ?g = "printed ''==> retrieving base firmware files'' example_store"
  let ?u = "printed ''==> patching firmware files'' ?g"
  let ?p = "Patch ''venus'' (patch_venus_extract example_env)"
  let ?post = "[Patch ''ath10k/board-2.bin'' (patch_ath10k_board example_env),
      Patch ''ath10k/firmware-5.bin'' (patch_ath10k_firmware example_env),
      Patch ''qca/bt'' (patch_qca_bt_symlinks example_env)]"
  let ?r = "patch_venus_extract example_env step_logger example_args (printed '' -> venus'' ?u)"
  have ps: "patches example_env = [] @ ?p # ?post"
    by (simp add: patches_def)
  have g: "gather example_env phase_logger example_args [] ?g = Ok () ?g"
    by (simp add: gather_def)
  have pre: "patch phase_logger example_args [] ?u = Ok () ?u"
    by (simp add: patch_def)
  have r: "raises FileNotFoundError ?r"
    by code_simp
  have fail: "apply_patch ?p step_logger example_args (printed ('' -> '' @ patch_name ?p) ?u)
                = Raised FileNotFoundError (world_of ?r)"
    using raises_world_of [OF r] by (simp add: apply_patch_def)
  have a: "(1000::nat) \<noteq> 0 \<and> example_args = make_args ''/mnt'' ''out''"
    by (simp add: example_args_def)
  have "main example_env 1000 ''/mnt'' ''out'' [] ([] @ ?p # ?post) example_store = (1, world_of ?r)"
    using exit_status_ignored [of 0 example_env step_logger example_args example_store 1000
            "''/mnt''" "''out''" "[]"] g pre fail a
    by blast
  then have m: "main example_env 1000 ''/mnt'' ''out'' [] (patches example_env) example_store
                  = (1, world_of ?r)"
    by (simp only: ps)
  have "printed_lines (trace (world_of ?r))
          = [''==> retrieving base firmware files'', ''==> patching firmware files'', '' -> venus'']"
    by code_simp
  with r m show ?thesis by simp
qed


subsection \<open>Alias symlinks\<close>

lemma lookup_delete: "k \<noteq> [] \<Longrightarrow> lookup (AList.delete k f) q = (if q = k then None else lookup f q)"
  by (simp add: lookup_def delete_conv')

lemma lookup_update: "k \<noteq> [] \<Longrightarrow> lookup (AList.update k v f) q = (if q = k then Some v else lookup f q)"
  by (simp add: lookup_def update_conv')

lemma lookup_root: "lookup f [] = Some Dir"
  by (simp add: lookup_def)

lemma fs_op_Ok: "fs_op g w = Ok () w' \<longleftrightarrow> (\<exists>f'. g (fsys w) = Inr f' \<and> w' = w\<lparr>fsys := f'\<rparr>)"
  by (auto simp: fs_op_def split: sum.splits)

lemma walk_Inr:
  "walk f cur cs = Inr r \<Longrightarrow> cs \<noteq> [] \<Longrightarrow>
   r = lookup f (cur @ cs) \<and>
   (\<forall>j. 0 < j \<and> j < length cs \<longrightarrow> lookup f (cur @ take j cs) = Some Dir)"
proof (induction f cur cs rule: walk.induct)
  case (1 f cur)
  then show ?case by simp
next
  case (2 f cur c)
  then show ?case by simp
next
  case (3 f cur c c' cs)
  from "3.prems" have d: "lookup f (cur @ [c]) = Some Dir"
    by (auto split: option.splits node.splits)
  with "3.prems" have w: "walk f (cur @ [c]) (c' # cs) = Inr r" by simp
  from "3.IH" [OF d refl w] have ih:
    "r = lookup f ((cur @ [c]) @ c' # cs)"
    "\<forall>j. 0 < j \<and> j < length (c' # cs) \<longrightarrow> lookup f ((cur @ [c]) @ take j (c' # cs)) = Some Dir"
    by simp_all
  have "lookup f (cur @ take j (c # c' # cs)) = Some Dir" if "0 < j" "j < length (c # c' # cs)" for j
  proof (cases j)
    case 0
    with that show ?thesis by simp
  next
    case (Suc i)
    show ?thesis
    proof (cases i)
      case 0
      with Suc d show ?thesis by simp
    next
      case (Suc i')
      with \<open>j = Suc i\<close> that have "0 < i \<and> i < length (c' # cs)" by simp
      with ih(2) have "lookup f ((cur @ [c]) @ take i (c' # cs)) = Some Dir" by blast
      with \<open>j = Suc i\<close> show ?thesis by simp
    qed
  qed
  with ih(1) show ?case by simp
qed

lemma walk_dirs:
  "cs \<noteq> [] \<Longrightarrow>
   (\<forall>j. 0 < j \<and> j < length cs \<longrightarrow> lookup f (cur @ take j cs) = Some Dir) \<Longrightarrow>
   walk f cur cs = Inr (lookup f (cur @ cs))"
proof (induction f cur cs rule: walk.induct)
  case (1 f cur)
  then show ?case by simp
next
  case (2 f cur c)
  then show ?case by simp
next
  case (3 f cur c c' cs)
  from "3.prems"(2) have "lookup f (cur @ take 1 (c # c' # cs)) = Some Dir"
    by (intro "3.prems"(2) [rule_format]) simp
  then have d: "lookup f (cur @ [c]) = Some Dir" by simp
  have "\<forall>j. 0 < j \<and> j < length (c' # cs) \<longrightarrow> lookup f ((cur @ [c]) @ take j (c' # cs)) = Some Dir"
  proof (intro allI impI)
    fix j assume "0 < j \<and> j < length (c' # cs)"
    then have "0 < Suc j \<and> Suc j < length (c # c' # cs)" by simp
    with "3.prems"(2) have "lookup f (cur @ take (Suc j) (c # c' # cs)) = Some Dir" by blast
    then show "lookup f ((cur @ [c]) @ take j (c' # cs)) = Some Dir" by simp
  qed
  from "3.IH" [OF d refl _ this] have "walk f (cur @ [c]) (c' # cs) = Inr (lookup f ((cur @ [c]) @ c' # cs))"
    by simp
  with d show ?case by simp
qed

lemma walk_cong:
  "(\<forall>q. lookup g q = lookup f q) \<Longrightarrow> walk g cur cs = walk f cur cs"
  by (induction f cur cs rule: walk.induct) (auto split: option.splits node.splits)

lemma strict_prefix_take:
  "strict_prefix q k \<longleftrightarrow> (\<exists>j < length k. q = take j k)"
proof
  assume "strict_prefix q k"
  then obtain r where "k = q @ r" "r \<noteq> []" by (auto simp: strict_prefix_def prefix_def)
  then have "length q < length k \<and> q = take (length q) k" by simp
  then show "\<exists>j < length k. q = take j k" by blast
next
  assume "\<exists>j < length k. q = take j k"
  then obtain j where j: "j < length k" "q = take j k" by blast
  then have "prefix q k" by (simp add: take_is_prefix)
  moreover from j have "q \<noteq> k" by (metis length_take min.absorb4 nat_neq_iff)
  ultimately show "strict_prefix q k" by (simp add: strict_prefix_def)
qed

lemma entry_Inr:
  assumes "entry f k = Inr r"
  shows "r = lookup f k" and "strict_prefix q k \<Longrightarrow> lookup f q = Some Dir"
proof -
  show "r = lookup f k"
  proof (cases "k = []")
    case True
    with assms show ?thesis by (simp add: entry_def lookup_root)
  next
    case False
    with walk_Inr [of f "[]" k r] assms show ?thesis by (simp add: entry_def)
  qed
  assume "strict_prefix q k"
  then obtain j where j: "j < length k" "q = take j k" by (auto simp: strict_prefix_take)
  show "lookup f q = Some Dir"
  proof (cases "j = 0")
    case True
    with j show ?thesis by (simp add: lookup_root)
  next
    case False
    with j have "k \<noteq> []" "0 < j \<and> j < length k" by auto
    with walk_Inr [of f "[]" k r] assms j show ?thesis by (simp add: entry_def)
  qed
qed

lemma entry_dirs:
  assumes "\<forall>q. strict_prefix q k \<longrightarrow> lookup f q = Some Dir"
  shows "entry f k = Inr (lookup f k)"
proof (cases "k = []")
  case True
  then show ?thesis by (simp add: entry_def lookup_root)
next
  case False
  have "\<forall>j. 0 < j \<and> j < length k \<longrightarrow> lookup f ([] @ take j k) = Some Dir"
    using assms by (auto simp: strict_prefix_take)
  from walk_dirs [OF False this] show ?thesis by (simp add: entry_def)
qed

lemma entry_cong: "(\<forall>q. lookup g q = lookup f q) \<Longrightarrow> entry g k = entry f k"
  by (simp add: entry_def walk_cong)

lemma entry_nonempty_ok:
  assumes "entry f k = Inr r" and "r \<noteq> Some Dir"
  shows "k \<noteq> []"
  using assms by (auto simp: entry_def)

lemma relink_Ok:
  assumes "relink k t w = Ok () w'"
  shows "strict_prefix q k \<Longrightarrow> lookup (fsys w) q = Some Dir"
    and "lookup (fsys w) k \<noteq> Some Dir"
    and "lookup (fsys w') q = (if q = k then Some (Symlink t) else lookup (fsys w) q)"
    and "trace w' = trace w"
proof -
  from assms obtain f1 f2 where
    u: "unlink_missing_ok k (fsys w) = Inr f1" and
    s: "symlink_to k t f1 = Inr f2" and w': "w' = w\<lparr>fsys := f2\<rparr>"
    by (auto simp: relink_def fs_op_def split: sum.splits result.splits)
  from w' show "trace w' = trace w" by simp
  from s have e1: "entry f1 k = Inr None" and f2: "f2 = AList.update k (Symlink t) f1"
    by (auto simp: symlink_to_def split: sum.splits option.splits)
  from e1 have ne: "k \<noteq> []" by (auto simp: entry_def)
  have "entry (fsys w) k = Inr (lookup (fsys w) k) \<and> lookup (fsys w) k \<noteq> Some Dir \<and>
        (\<forall>q. lookup f1 q = (if q = k then None else lookup (fsys w) q))"
  proof (cases "entry (fsys w) k")
    case (Inl e)
    with u have "f1 = fsys w" by (auto simp: unlink_missing_ok_def split: if_splits)
    with e1 Inl show ?thesis by simp
  next
    case (Inr r)
    note r = entry_Inr(1) [OF Inr]
    show ?thesis
    proof (cases r)
      case None
      with u Inr have "f1 = fsys w" by (simp add: unlink_missing_ok_def)
      with None r Inr show ?thesis by auto
    next
      case (Some n)
      with u Inr have "n \<noteq> Dir" and "f1 = AList.delete k (fsys w)"
        by (cases n; simp add: unlink_missing_ok_def)+
      with Some r Inr ne show ?thesis by (simp add: lookup_delete)
    qed
  qed
  then have en: "entry (fsys w) k = Inr (lookup (fsys w) k)"
    and nd: "lookup (fsys w) k \<noteq> Some Dir"
    and f1: "\<And>q. lookup f1 q = (if q = k then None else lookup (fsys w) q)"
    by blast+
  from nd show "lookup (fsys w) k \<noteq> Some Dir" .
  from f1 f2 w' ne show "lookup (fsys w') q = (if q = k then Some (Symlink t) else lookup (fsys w) q)"
    by (simp add: lookup_update)
  assume "strict_prefix q k"
  with entry_Inr(2) [OF en] show "lookup (fsys w) q = Some Dir" by blast
qed

lemma relink_succeeds:
  assumes "\<forall>q. strict_prefix q k \<longrightarrow> lookup (fsys w) q = Some Dir"
      and "lookup (fsys w) k \<noteq> Some Dir"
  shows "\<exists>w'. relink k t w = Ok () w'"
proof -
  have ne: "k \<noteq> []" using assms(2) by (auto simp: lookup_root)
  have en: "entry (fsys w) k = Inr (lookup (fsys w) k)"
    using assms(1) by (rule entry_dirs)
  obtain f1 where u: "unlink_missing_ok k (fsys w) = Inr f1"
    and f1: "\<And>q. lookup f1 q = (if q = k then None else lookup (fsys w) q)"
  proof (cases "lookup (fsys w) k")
    case None
    then have "unlink_missing_ok k (fsys w) = Inr (fsys w)"
      using en by (simp add: unlink_missing_ok_def)
    moreover have "lookup (fsys w) q = (if q = k then None else lookup (fsys w) q)" for q
      using None by simp
    ultimately show ?thesis using that by blast
  next
    case (Some n)
    then have "unlink_missing_ok k (fsys w) = Inr (AList.delete k (fsys w))"
      using en assms(2) by (cases n) (simp_all add: unlink_missing_ok_def)
    then show ?thesis using that [of "AList.delete k (fsys w)"] ne by (simp add: lookup_delete)
  qed
  have "\<forall>q. strict_prefix q k \<longrightarrow> lookup f1 q = Some Dir"
    using assms(1) f1 by (auto simp: strict_prefix_def)
  from entry_dirs [OF this] have "entry f1 k = Inr None" using f1 [of k] by simp
  then have "symlink_to k t f1 = Inr (AList.update k (Symlink t) f1)"
    by (simp add: symlink_to_def)
  with u show ?thesis by (simp add: relink_def fs_op_def)
qed

lemma relink_fails:
  "entry (fsys u) k = Inl e \<Longrightarrow> relink k t u = Raised e u"
  "entry (fsys u) k = Inr (Some Dir) \<Longrightarrow> relink k t u = Raised IsADirectoryError u"
  by (simp_all add: relink_def fs_op_def unlink_missing_ok_def symlink_to_def)

lemma relink_Raised:
  assumes "relink k t w = Raised e w'"
  shows "w' = w"
    and "(\<forall>q. lookup (fsys w2) q = lookup (fsys w) q) \<Longrightarrow> relink k t w2 = Raised e w2"
proof -
  have shape: "(\<exists>e'. entry (fsys w) k = Inl e' \<and> e = e' \<and> w' = w) \<or>
               (entry (fsys w) k = Inr (Some Dir) \<and> e = IsADirectoryError \<and> w' = w)"
  proof (cases "entry (fsys w) k")
    case (Inl e')
    with relink_fails(1) [OF Inl, of t] assms show ?thesis by simp
  next
    case (Inr r)
    show ?thesis
    proof (cases "r = Some Dir")
      case True
      with relink_fails(2) [of w k t] Inr assms show ?thesis by simp
    next
      case False
      with entry_Inr [OF Inr] have "\<forall>q. strict_prefix q k \<longrightarrow> lookup (fsys w) q = Some Dir"
        and "lookup (fsys w) k \<noteq> Some Dir" by auto
      from relink_succeeds [OF this, of t] assms show ?thesis by auto
    qed
  qed
  then show "w' = w" by blast
  assume "\<forall>q. lookup (fsys w2) q = lookup (fsys w) q"
  then have "entry (fsys w2) k = entry (fsys w) k" by (rule entry_cong)
  with shape show "relink k t w2 = Raised e w2"
    by (auto simp: relink_fails)
qed

lemma relink_all_Ok:
  assumes "seq (map (\<lambda>(k, t). relink k t) links) w = Ok () w'"
  shows "(\<forall>q. lookup (fsys w') q = Some Dir \<longleftrightarrow> lookup (fsys w) q = Some Dir) \<and>
         (\<forall>(k, t) \<in> set links.
            (\<forall>q. strict_prefix q k \<longrightarrow> lookup (fsys w) q = Some Dir) \<and> lookup (fsys w) k \<noteq> Some Dir) \<and>
         (\<forall>q. lookup (fsys w') q =
                (case map_of (rev links) q of Some t \<Rightarrow> Some (Symlink t) | None \<Rightarrow> lookup (fsys w) q)) \<and>
         trace w' = trace w"
  using assms
proof (induction links arbitrary: w)
  case Nil
  then show ?case by simp
next
  case (Cons kt links)
  obtain k t where kt: "kt = (k, t)" by (cases kt)
  from Cons.prems kt obtain w1 where
    first: "relink k t w = Ok () w1" and rest: "seq (map (\<lambda>(k, t). relink k t) links) w1 = Ok () w'"
    by (auto split: result.splits)
  note r = relink_Ok [OF first]
  note ih = Cons.IH [OF rest]
  have dirs1: "lookup (fsys w1) q = Some Dir \<longleftrightarrow> lookup (fsys w) q = Some Dir" for q
    using r(2) r(3) [of q] by auto
  from ih have "\<forall>q. lookup (fsys w') q = Some Dir \<longleftrightarrow> lookup (fsys w1) q = Some Dir"
    by blast
  with dirs1 have a: "\<forall>q. lookup (fsys w') q = Some Dir \<longleftrightarrow> lookup (fsys w) q = Some Dir"
    by simp
  from ih have "\<forall>(k, t) \<in> set links.
            (\<forall>q. strict_prefix q k \<longrightarrow> lookup (fsys w1) q = Some Dir) \<and> lookup (fsys w1) k \<noteq> Some Dir"
    by blast
  then have "\<forall>(k, t) \<in> set links.
            (\<forall>q. strict_prefix q k \<longrightarrow> lookup (fsys w) q = Some Dir) \<and> lookup (fsys w) k \<noteq> Some Dir"
    by (simp add: dirs1)
  moreover have "(\<forall>q. strict_prefix q k \<longrightarrow> lookup (fsys w) q = Some Dir) \<and> lookup (fsys w) k \<noteq> Some Dir"
    using r(1,2) by blast
  ultimately have b: "\<forall>(k, t) \<in> set (kt # links).
             (\<forall>q. strict_prefix q k \<longrightarrow> lookup (fsys w) q = Some Dir) \<and> lookup (fsys w) k \<noteq> Some Dir"
    using kt by simp
  have c: "lookup (fsys w') q =
             (case map_of (rev (kt # links)) q of Some t \<Rightarrow> Some (Symlink t) | None \<Rightarrow> lookup (fsys w) q)" for q
  proof -
    have "lookup (fsys w') q =
            (case map_of (rev links) q of Some t \<Rightarrow> Some (Symlink t) | None \<Rightarrow> lookup (fsys w1) q)"
      using ih by blast
    then show ?thesis
      using r(3) [of q] kt by (simp add: map_add_def split: option.splits)
  qed
  have "trace w' = trace w" using ih r(4) by simp
  with a b c show ?case by blast
qed

lemma relink_all_succeeds:
  assumes "\<forall>(k, t) \<in> set links.
             (\<forall>q. strict_prefix q k \<longrightarrow> lookup (fsys w) q = Some Dir) \<and> lookup (fsys w) k \<noteq> Some Dir"
  shows "\<exists>w'. seq (map (\<lambda>(k, t). relink k t) links) w = Ok () w'"
  using assms
proof (induction links arbitrary: w)
  case Nil
  then show ?case by simp
next
  case (Cons kt links)
  obtain k t where kt: "kt = (k, t)" by (cases kt)
  from Cons.prems kt
  have "\<forall>q. strict_prefix q k \<longrightarrow> lookup (fsys w) q = Some Dir" "lookup (fsys w) k \<noteq> Some Dir"
    by auto
  from relink_succeeds [OF this] obtain w1 where first: "relink k t w = Ok () w1" by blast
  note r = relink_Ok [OF first]
  have dirs1: "lookup (fsys w1) q = Some Dir \<longleftrightarrow> lookup (fsys w) q = Some Dir" for q
    using r(2) r(3) [of q] by auto
  from Cons.prems have "\<forall>(k, t) \<in> set links.
             (\<forall>q. strict_prefix q k \<longrightarrow> lookup (fsys w) q = Some Dir) \<and> lookup (fsys w) k \<noteq> Some Dir"
    by simp
  then have "\<forall>(k, t) \<in> set links.
             (\<forall>q. strict_prefix q k \<longrightarrow> lookup (fsys w1) q = Some Dir) \<and> lookup (fsys w1) k \<noteq> Some Dir"
    by (simp add: dirs1)
  from Cons.IH [OF this] obtain w' where "seq (map (\<lambda>(k, t). relink k t) links) w1 = Ok () w'"
    by blast
  with first kt show ?case by simp
qed

lemma relink_all_idempotent:
  assumes "seq (map (\<lambda>(k, t). relink k t) links) w = Ok () w1"
  shows "\<exists>w2. seq (map (\<lambda>(k, t). relink k t) links) w1 = Ok () w2 \<and>
              (\<forall>q. lookup (fsys w2) q = lookup (fsys w1) q) \<and> trace w2 = trace w1"
proof -
  note one = relink_all_Ok [OF assms]
  from one have "\<forall>(k, t) \<in> set links.
             (\<forall>q. strict_prefix q k \<longrightarrow> lookup (fsys w) q = Some Dir) \<and> lookup (fsys w) k \<noteq> Some Dir"
    by blast
  moreover from one have "\<And>q. lookup (fsys w1) q = Some Dir \<longleftrightarrow> lookup (fsys w) q = Some Dir"
    by blast
  ultimately have "\<forall>(k, t) \<in> set links.
             (\<forall>q. strict_prefix q k \<longrightarrow> lookup (fsys w1) q = Some Dir) \<and> lookup (fsys w1) k \<noteq> Some Dir"
    by simp
  from relink_all_succeeds [OF this] obtain w2 where
    two: "seq (map (\<lambda>(k, t). relink k t) links) w1 = Ok () w2" by blast
  note again = relink_all_Ok [OF two]
  have "lookup (fsys w2) q = lookup (fsys w1) q" for q
  proof -
    have "lookup (fsys w2) q =
            (case map_of (rev links) q of Some t \<Rightarrow> Some (Symlink t) | None \<Rightarrow> lookup (fsys w1) q)"
      using again by blast
    moreover have "lookup (fsys w1) q =
            (case map_of (rev links) q of Some t \<Rightarrow> Some (Symlink t) | None \<Rightarrow> lookup (fsys w) q)"
      using one by blast
    ultimately show ?thesis by (simp split: option.splits)
  qed
  with two again show ?thesis by auto
qed

lemma patch_qca_bt_symlinks_links:
  "patch_qca_bt_symlinks E log a = seq (map (\<lambda>(k, t). relink k t) (qca_links E a))"
proof -
  have "symlink_step E (join_str (path_out a) ''qca'')
          = (\<lambda>fl. relink (key E (join_str (join_str (path_out a) ''qca'') (py_replace ''21'' ''01'' fl))) fl)"
    by (intro ext) (simp add: symlink_step_def relink_def Let_def)
  then show ?thesis
    by (simp add: patch_qca_bt_symlinks_def qca_links_def comp_def)
qed

lemma seq_map_Raised_split:
  assumes "seq (map g xs) w = Raised e w'"
  shows "\<exists>pre x post u. xs = pre @ x # post \<and> seq (map g pre) w = Ok () u \<and> g x u = Raised e w'"
  using assms
proof (induction xs arbitrary: w)
  case Nil
  then show ?case by simp
next
  case (Cons x xs)
  show ?case
  proof (cases "g x w")
    case (Ok r w1)
    with Cons.prems have "seq (map g xs) w1 = Raised e w'" by simp
    from Cons.IH [OF this] obtain pre y post u where
      "xs = pre @ y # post" "seq (map g pre) w1 = Ok () u" "g y u = Raised e w'" by blast
    with Ok have "x # xs = (x # pre) @ y # post \<and> seq (map g (x # pre)) w = Ok () u \<and> g y u = Raised e w'"
      by simp
    then show ?thesis by blast
  next
    case (Raised e1 w1)
    with Cons.prems have "x # xs = [] @ x # xs \<and> seq (map g []) w = Ok () w \<and> g x w = Raised e w'"
      by simp
    then show ?thesis by blast
  qed
qed

lemma relink_all_twice:
  fixes links w
  defines "r1 \<equiv> seq (map (\<lambda>(k, t). relink k t) links) w"
  defines "r2 \<equiv> seq (map (\<lambda>(k, t). relink k t) links) (world_of r1)"
  shows "(\<forall>q. lookup (fsys (world_of r2)) q = lookup (fsys (world_of r1)) q) \<and>
         trace (world_of r2) = trace (world_of r1) \<and>
         (completes r1 \<longrightarrow> completes r2) \<and>
         (\<forall>e. raises e r1 \<longrightarrow> raises e r2)"
proof (cases r1)
  case (Ok x w1)
  then have "seq (map (\<lambda>(k, t). relink k t) links) w = Ok () w1"
    by (simp add: r1_def)
  from relink_all_idempotent [OF this] obtain w2 where
    "seq (map (\<lambda>(k, t). relink k t) links) w1 = Ok () w2"
    "\<forall>q. lookup (fsys w2) q = lookup (fsys w1) q" "trace w2 = trace w1"
    by blast
  with Ok show ?thesis
    by (simp add: r2_def world_of_def completes_def raises_def)
next
  case (Raised e w1)
  then have "seq (map (\<lambda>(k, t). relink k t) links) w = Raised e w1"
    by (simp add: r1_def)
  from seq_map_Raised_split [OF this] obtain pre kt post u where
    links: "links = pre @ kt # post" and
    pre: "seq (map (\<lambda>(k, t). relink k t) pre) w = Ok () u" and
    fail: "(\<lambda>(k, t). relink k t) kt u = Raised e w1"
    by blast
  obtain k t where kt: "kt = (k, t)" by (cases kt)
  from fail kt have f: "relink k t u = Raised e w1" by simp
  from relink_Raised(1) [OF f] have w1: "w1 = u" .
  from relink_all_idempotent [OF pre] obtain u2 where
    again: "seq (map (\<lambda>(k, t). relink k t) pre) u = Ok () u2" and
    same: "\<forall>q. lookup (fsys u2) q = lookup (fsys u) q" and tr: "trace u2 = trace u"
    by blast
  from relink_Raised(2) [OF f same] have "relink k t u2 = Raised e u2" .
  then have "(\<lambda>(k, t). relink k t) kt u2 = Raised e u2" using kt by simp
  with again have "seq (map (\<lambda>(k, t). relink k t) pre @ (\<lambda>(k, t). relink k t) kt
                     # map (\<lambda>(k, t). relink k t) post) u = Raised e u2"
    by (rule seq_Raised_at)
  then have "r2 = Raised e u2"
    using Raised w1 links by (simp add: r2_def world_of_def)
  with Raised w1 same tr show ?thesis
    by (simp add: world_of_def completes_def raises_def)
qed

lemma normalise_snoc: "s \<noteq> ''..'' \<Longrightarrow> normalise (xs @ [s]) = normalise xs @ [s]"
  by (simp add: normalise_def)

lemma walk_back_free:
  "''..'' \<notin> set acc \<Longrightarrow>
   ''..'' \<notin> set (foldl (\<lambda>acc c. if c = ''..'' then butlast acc else acc @ [c]) acc xs)"
proof (induction xs arbitrary: acc)
  case Nil
  then show ?case by simp
next
  case (Cons x xs)
  show ?case
  proof (cases "x = ''..''")
    case True
    from Cons.prems have "''..'' \<notin> set (butlast acc)" by (auto dest: in_set_butlastD)
    from Cons.IH [OF this] True show ?thesis by simp
  next
    case False
    with Cons.prems have "''..'' \<notin> set (acc @ [x])" by simp
    from Cons.IH [OF this] False show ?thesis by simp
  qed
qed

lemma walk_plain:
  "''..'' \<notin> set ys \<Longrightarrow>
   foldl (\<lambda>acc c. if c = ''..'' then butlast acc else acc @ [c]) acc ys = acc @ ys"
  by (induction ys arbitrary: acc) auto

lemma normalise_free: "''..'' \<notin> set (normalise xs)"
  unfolding normalise_def by (rule walk_back_free) simp

lemma normalise_normal: "''..'' \<notin> set ys \<Longrightarrow> normalise (normalise xs @ ys) = normalise xs @ ys"
proof -
  assume ys: "''..'' \<notin> set ys"
  have "normalise (normalise xs @ ys) =
          foldl (\<lambda>acc c. if c = ''..'' then butlast acc else acc @ [c])
            (foldl (\<lambda>acc c. if c = ''..'' then butlast acc else acc @ [c]) [] (normalise xs)) ys"
    by (simp add: normalise_def)
  also have "foldl (\<lambda>acc c. if c = ''..'' then butlast acc else acc @ [c]) [] (normalise xs)
               = normalise xs"
    using walk_plain [OF normalise_free, of "[]" xs] by simp
  also have "foldl (\<lambda>acc c. if c = ''..'' then butlast acc else acc @ [c]) (normalise xs) ys
               = normalise xs @ ys"
    using ys by (rule walk_plain)
  finally show ?thesis .
qed

lemma key_normalised: "\<exists>xs. key E p = normalise xs"
  by (auto simp: key_def resolve_def)

lemma key_anchored: "key E (Path True ps) = normalise ps"
  by (simp add: key_def resolve_def)

lemma key_plain:
  assumes "''..'' \<notin> set ys"
  shows "key E (Path True (key E p @ ys)) = key E p @ ys"
proof -
  obtain xs where "key E p = normalise xs" using key_normalised by blast
  with assms show ?thesis by (simp add: key_anchored normalise_normal)
qed

lemma key_join_name:
  assumes "path_of_str s = Path False [s]" and "s \<noteq> ''..''"
  shows "key E (join_str p s) = key E p @ [s]"
proof -
  have "normalise (xs @ [s]) = normalise xs @ [s]" for xs
    using assms(2) by (rule normalise_snoc)
  from this [of "parts p"] this [of "wd E @ parts p"] assms(1) show ?thesis
    by (simp add: key_def join_str_def joinpath_def resolve_def)
qed

lemma qca_aliases:
  "map (py_replace ''21'' ''01'') qca_bt_files =
     [''crbtfw01.tlv'', ''crnv01.b3c'', ''crnv01.b44'', ''crnv01.b45'',
      ''crnv01.b46'', ''crnv01.b47'', ''crnv01.b71'', ''crnv01.bin'']"
  by code_simp

lemma qca_alias_names:
  "\<forall>s \<in> set (map (py_replace ''21'' ''01'') qca_bt_files). path_of_str s = Path False [s] \<and> s \<noteq> ''..''"
  unfolding qca_aliases by code_simp

lemma qca_alias_key:
  assumes "fl \<in> set qca_bt_files"
  shows "key E (join_str p (py_replace ''21'' ''01'' fl)) = key E p @ [py_replace ''21'' ''01'' fl]"
  using qca_alias_names assms by (intro key_join_name) simp_all

lemma qca_links_keys:
  "qca_links E a =
     map (\<lambda>fl. (key E (join_str (path_out a) ''qca'') @ [py_replace ''21'' ''01'' fl], fl)) qca_bt_files"
  unfolding qca_links_def by (rule map_cong [OF refl]) (simp add: qca_alias_key)

lemma qca_links_explicit:
  "qca_links E a =
     (let d = key E (join_str (path_out a) ''qca'') in
      [(d @ [''crbtfw01.tlv''], ''crbtfw21.tlv''), (d @ [''crnv01.b3c''], ''crnv21.b3c''),
       (d @ [''crnv01.b44''], ''crnv21.b44''), (d @ [''crnv01.b45''], ''crnv21.b45''),
       (d @ [''crnv01.b46''], ''crnv21.b46''), (d @ [''crnv01.b47''], ''crnv21.b47''),
       (d @ [''crnv01.b71''], ''crnv21.b71''), (d @ [''crnv01.bin''], ''crnv21.bin'')])"
proof -
  have "map2 (\<lambda>al fl. (d @ [al], fl)) (map g xs) xs = map (\<lambda>fl. (d @ [g fl], fl)) xs"
    for d :: "string list" and g :: "string \<Rightarrow> string" and xs
    by (induction xs) simp_all
  then have "map2 (\<lambda>al fl. (key E (join_str (path_out a) ''qca'') @ [al], fl))
          (map (py_replace ''21'' ''01'') qca_bt_files) qca_bt_files = qca_links E a"
    unfolding qca_links_keys by simp
  then show ?thesis
    unfolding qca_aliases by (simp add: qca_bt_files_def)
qed

lemma qca_links_lookup:
  assumes "fl \<in> set qca_bt_files"
  shows "map_of (rev (qca_links E a))
           (key E (join_str (path_out a) ''qca'') @ [py_replace ''21'' ''01'' fl]) = Some fl"
proof -
  have d: "distinct (map fst (rev (qca_links E a)))"
    by (simp add: qca_links_explicit Let_def)
  have "(key E (join_str (path_out a) ''qca'') @ [py_replace ''21'' ''01'' fl], fl)
          \<in> set (rev (qca_links E a))"
    using assms by (simp add: qca_links_keys)
  with d show ?thesis by (rule map_of_is_SomeI)
qed

lemma qca_links_made:
  assumes "patch_qca_bt_symlinks E log a w = Ok () w1" and "fl \<in> set qca_bt_files"
  shows "lookup (fsys w1) (key E (join_str (path_out a) ''qca'') @ [py_replace ''21'' ''01'' fl])
           = Some (Symlink fl)"
proof -
  from assms(1) have "seq (map (\<lambda>(k, t). relink k t) (qca_links E a)) w = Ok () w1"
    by (simp add: patch_qca_bt_symlinks_links)
  from relink_all_Ok [OF this]
  have "lookup (fsys w1) q =
          (case map_of (rev (qca_links E a)) q of Some t \<Rightarrow> Some (Symlink t) | None \<Rightarrow> lookup (fsys w) q)"
    for q by blast
  then show ?thesis
    by (simp add: qca_links_lookup [OF assms(2)])
qed

text \<open>
  C6, as the code has it. Take any world, run the symlink patch, and run it again in
  the world the first run left. After the second run every path of the file system
  holds what it held after the first run, and nothing was printed, requested or run.
  If the first run completed, the second completes too: it raises no error, since each
  alias, now a link, is removed before it is created again; and after either run each
  alias is a link to its file name, so the links and their targets are the same. If the
  first run raised (the directory \<^verbatim>\<open>qca\<close> is missing, or an alias is a directory), the
  second run raises the same exception.
\<close>

theorem alias_symlinking_idempotent:
  "(\<forall>q. lookup (fsys (world_of (patch_qca_bt_symlinks E log a
                       (world_of (patch_qca_bt_symlinks E log a w))))) q
        = lookup (fsys (world_of (patch_qca_bt_symlinks E log a w))) q) \<and>
   trace (world_of (patch_qca_bt_symlinks E log a (world_of (patch_qca_bt_symlinks E log a w))))
     = trace (world_of (patch_qca_bt_symlinks E log a w)) \<and>
   (completes (patch_qca_bt_symlinks E log a w)
      \<longrightarrow> completes (patch_qca_bt_symlinks E log a (world_of (patch_qca_bt_symlinks E log a w))) \<and>
          (\<forall>fl \<in> set qca_bt_files.
             lookup (fsys (world_of (patch_qca_bt_symlinks E log a w)))
               (key E (join_str (path_out a) ''qca'') @ [py_replace ''21'' ''01'' fl])
               = Some (Symlink fl) \<and>
             lookup (fsys (world_of (patch_qca_bt_symlinks E log a
                       (world_of (patch_qca_bt_symlinks E log a w)))))
               (key E (join_str (path_out a) ''qca'') @ [py_replace ''21'' ''01'' fl])
               = Some (Symlink fl))) \<and>
   (\<forall>e. raises e (patch_qca_bt_symlinks E log a w)
      \<longrightarrow> raises e (patch_qca_bt_symlinks E log a (world_of (patch_qca_bt_symlinks E log a w))))"
proof -
  let ?r1 = "patch_qca_bt_symlinks E log a w"
  let ?r2 = "patch_qca_bt_symlinks E log a (world_of ?r1)"
  have twice:
    "(\<forall>q. lookup (fsys (world_of ?r2)) q = lookup (fsys (world_of ?r1)) q) \<and>
     trace (world_of ?r2) = trace (world_of ?r1) \<and>
     (completes ?r1 \<longrightarrow> completes ?r2) \<and>
     (\<forall>e. raises e ?r1 \<longrightarrow> raises e ?r2)"
    unfolding patch_qca_bt_symlinks_links by (rule relink_all_twice)
  have made: "lookup (fsys (world_of ?r1))
                (key E (join_str (path_out a) ''qca'') @ [py_replace ''21'' ''01'' fl]) = Some (Symlink fl) \<and>
              lookup (fsys (world_of ?r2))
                (key E (join_str (path_out a) ''qca'') @ [py_replace ''21'' ''01'' fl]) = Some (Symlink fl)"
    if c: "completes ?r1" and fl: "fl \<in> set qca_bt_files" for fl
  proof -
    have "lookup (fsys (world_of ?r1))
            (key E (join_str (path_out a) ''qca'') @ [py_replace ''21'' ''01'' fl]) = Some (Symlink fl)"
      using qca_links_made [OF completes_world_of [OF c] fl] .
    with twice show ?thesis by simp
  qed
  from twice made show ?thesis by blast
qed

text \<open>
  The second run can raise. On the example store the output tree does not exist: the
  first run raises \<^verbatim>\<open>FileNotFoundError\<close> when it creates the first link, and so does the
  second run; neither completes.
\<close>

theorem alias_symlinking_second_run_raises:
  "raises FileNotFoundError
     (patch_qca_bt_symlinks example_env step_logger example_args example_store) \<and>
   raises FileNotFoundError
     (patch_qca_bt_symlinks example_env step_logger example_args
        (world_of (patch_qca_bt_symlinks example_env step_logger example_args example_store))) \<and>
   \<not> completes
     (patch_qca_bt_symlinks example_env step_logger example_args
        (world_of (patch_qca_bt_symlinks example_env step_logger example_args example_store)))"
  by code_simp

text \<open>
  A run of C6 on the example tree, whose \<^verbatim>\<open>qca\<close> directory exists: both runs
  complete, and after the second the alias of \<^verbatim>\<open>crnv21.bin\<close> is a link to it. And the
  two runs on the example store, which raise the same exception.
\<close>

theorem alias_symlinking_idempotent_witness:
  "completes (patch_qca_bt_symlinks example_env step_logger example_args example_tree) \<and>
   completes (patch_qca_bt_symlinks example_env step_logger example_args
                (world_of (patch_qca_bt_symlinks example_env step_logger example_args example_tree))) \<and>
   lookup (fsys (world_of (patch_qca_bt_symlinks example_env step_logger example_args
                (world_of (patch_qca_bt_symlinks example_env step_logger example_args example_tree)))))
     [''work'', ''out'', ''qca'', ''crnv01.bin'']
   = Some (Symlink ''crnv21.bin'') \<and>
   raises FileNotFoundError
     (patch_qca_bt_symlinks example_env step_logger example_args example_store) \<and>
   raises FileNotFoundError
     (patch_qca_bt_symlinks example_env step_logger example_args
        (world_of (patch_qca_bt_symlinks example_env step_logger example_args example_store)))"
proof -
  let ?r1 = "patch_qca_bt_symlinks example_env step_logger example_args example_tree"
  let ?r2 = "patch_qca_bt_symlinks example_env step_logger example_args (world_of ?r1)"
  let ?s1 = "patch_qca_bt_symlinks example_env step_logger example_args example_store"
  let ?s2 = "patch_qca_bt_symlinks example_env step_logger example_args (world_of ?s1)"
  have c: "completes ?r1"
    by code_simp
  have m: "''crnv21.bin'' \<in> set qca_bt_files"
    by (simp add: qca_bt_files_def)
  have k: "key example_env (join_str (path_out example_args) ''qca'') @ [py_replace ''21'' ''01'' ''crnv21.bin'']
             = [''work'', ''out'', ''qca'', ''crnv01.bin'']"
    by code_simp
  from alias_symlinking_idempotent [of example_env step_logger example_args example_tree] c m
  have "completes ?r2 \<and>
        lookup (fsys (world_of ?r2))
          (key example_env (join_str (path_out example_args) ''qca'') @ [py_replace ''21'' ''01'' ''crnv21.bin''])
        = Some (Symlink ''crnv21.bin'')"
    by blast
  then have two: "completes ?r2 \<and>
        lookup (fsys (world_of ?r2)) [''work'', ''out'', ''qca'', ''crnv01.bin''] = Some (Symlink ''crnv21.bin'')"
    unfolding k .
  have r: "raises FileNotFoundError ?s1"
    by code_simp
  from alias_symlinking_idempotent [of example_env step_logger example_args example_store] r
  have "raises FileNotFoundError ?s2"
    by blast
  with c two r show ?thesis by blast
qed

text \<open>
  C9. The aliases of the eight file names are the names with \<^verbatim>\<open>21\<close> replaced by
  \<^verbatim>\<open>01\<close>. After a run of the symlink patch that completes, for every file name of the
  list: the link is the entry named by the alias in the directory \<^verbatim>\<open>qca\<close> of the output
  tree, and it is a symbolic link whose target is the file name itself, as it stands in
  the list: a bare name, with no directory in front.
\<close>

theorem alias_symlink_targets:
  assumes "patch_qca_bt_symlinks E log a w = Ok () w1"
  shows "map (py_replace ''21'' ''01'') qca_bt_files =
           [''crbtfw01.tlv'', ''crnv01.b3c'', ''crnv01.b44'', ''crnv01.b45'',
            ''crnv01.b46'', ''crnv01.b47'', ''crnv01.b71'', ''crnv01.bin''] \<and>
         (\<forall>fl \<in> set qca_bt_files.
            key E (join_str (join_str (path_out a) ''qca'') (py_replace ''21'' ''01'' fl))
              = key E (join_str (path_out a) ''qca'') @ [py_replace ''21'' ''01'' fl] \<and>
            lookup (fsys w1) (key E (join_str (path_out a) ''qca'') @ [py_replace ''21'' ''01'' fl])
              = Some (Symlink fl))"
proof (intro conjI ballI)
  show "map (py_replace ''21'' ''01'') qca_bt_files =
           [''crbtfw01.tlv'', ''crnv01.b3c'', ''crnv01.b44'', ''crnv01.b45'',
            ''crnv01.b46'', ''crnv01.b47'', ''crnv01.b71'', ''crnv01.bin'']"
    by (rule qca_aliases)
next
  fix fl assume fl: "fl \<in> set qca_bt_files"
  then show "key E (join_str (join_str (path_out a) ''qca'') (py_replace ''21'' ''01'' fl))
              = key E (join_str (path_out a) ''qca'') @ [py_replace ''21'' ''01'' fl]"
    by (rule qca_alias_key)
  from assms fl
  show "lookup (fsys w1) (key E (join_str (path_out a) ''qca'') @ [py_replace ''21'' ''01'' fl])
              = Some (Symlink fl)"
    by (rule qca_links_made)
qed


text \<open>
  A run of C9 on the example tree: \<^verbatim>\<open>/work/out/qca/crnv01.bin\<close> becomes a link to
  \<^verbatim>\<open>crnv21.bin\<close>.
\<close>

theorem alias_symlink_targets_witness:
  "completes (patch_qca_bt_symlinks example_env step_logger example_args example_tree) \<and>
   ''crnv21.bin'' \<in> set qca_bt_files \<and>
   lookup (fsys (world_of (patch_qca_bt_symlinks example_env step_logger example_args example_tree)))
     [''work'', ''out'', ''qca'', ''crnv01.bin''] = Some (Symlink ''crnv21.bin'')"
proof -
  have c: "completes (patch_qca_bt_symlinks example_env step_logger example_args example_tree)"
    by code_simp
  have m: "''crnv21.bin'' \<in> set qca_bt_files"
    by (simp add: qca_bt_files_def)
  have k: "key example_env (join_str (path_out example_args) ''qca'') @ [py_replace ''21'' ''01'' ''crnv21.bin'']
             = [''work'', ''out'', ''qca'', ''crnv01.bin'']"
    by code_simp
  from alias_symlink_targets [OF completes_world_of [OF c]] m
  have "lookup (fsys (world_of (patch_qca_bt_symlinks example_env step_logger example_args example_tree)))
          (key example_env (join_str (path_out example_args) ''qca'') @ [py_replace ''21'' ''01'' ''crnv21.bin''])
        = Some (Symlink ''crnv21.bin'')"
    by blast
  with c m k show ?thesis by simp
qed


subsection \<open>Re-encoding the board file\<close>

lemma map_of_filter_keys:
  "map_of (filter (\<lambda>(q, n). P q) f) k = (if P k then map_of f k else None)"
  by (induction f) auto

lemma create_temp_Inr:
  assumes "create_temp k f = Inr f'"
  shows "k \<noteq> []" and "lookup f' q = (if q = k then Some (File (Bytes [])) else lookup f q)"
proof -
  from assms have e: "entry f k = Inr None" and f': "f' = AList.update k (File (Bytes [])) f"
    by (auto simp: create_temp_def split: sum.splits option.splits)
  from e show ne: "k \<noteq> []" by (auto simp: entry_def)
  with f' show "lookup f' q = (if q = k then Some (File (Bytes [])) else lookup f q)"
    by (simp add: lookup_update)
qed

lemma write_file_Inr:
  assumes "write_file k c f = Inr f'"
  shows "k \<noteq> []" and "strict_prefix p k \<Longrightarrow> lookup f p = Some Dir" and "lookup f k \<noteq> Some Dir"
    and "lookup f' q = (if q = k then Some (File c) else lookup f q)"
proof -
  from assms obtain r where e: "entry f k = Inr r" and r: "r \<noteq> Some Dir"
    and f': "f' = AList.update k (File c) f"
    by (auto simp: write_file_def split: sum.splits option.splits node.splits)
  from e r show ne: "k \<noteq> []" by (rule entry_nonempty_ok)
  from entry_Inr(1) [OF e] r show "lookup f k \<noteq> Some Dir" by simp
  from f' ne show "lookup f' q = (if q = k then Some (File c) else lookup f q)"
    by (simp add: lookup_update)
  assume "strict_prefix p k"
  then show "lookup f p = Some Dir" by (rule entry_Inr(2) [OF e])
qed

lemma rmtree_Inr:
  assumes "rmtree k f = Inr f'"
  shows "lookup f k = Some Dir" and "map_of f' q = (if prefix k q then None else map_of f q)"
proof -
  from assms have e: "entry f k = Inr (Some Dir)" and f': "f' = filter (\<lambda>(q, n). \<not> prefix k q) f"
    by (auto simp: rmtree_def split: sum.splits option.splits node.splits)
  from entry_Inr(1) [OF e] show "lookup f k = Some Dir" by simp
  from f' show "map_of f' q = (if prefix k q then None else map_of f q)"
    by (simp add: map_of_filter_keys)
qed

lemma join_str_name:
  assumes "path_of_str s = Path False [s]"
  shows "join_str p s = Path (anchored p) (parts p @ [s])"
  using assms by (simp add: join_str_def joinpath_def)

lemma plain_names:
  "path_of_str ''ath10k'' = Path False [''ath10k'']"
  "path_of_str ''WCN3990'' = Path False [''WCN3990'']"
  "path_of_str ''hw1.0'' = Path False [''hw1.0'']"
  "path_of_str ''boards'' = Path False [''boards'']"
  "path_of_str ''board-2.bin'' = Path False [''board-2.bin'']"
  "path_of_str ''bdwlan.b58'' = Path False [''bdwlan.b58'']"
  by code_simp+

lemma resolve_key: "resolve (wd E) p = Path True (key E p)"
  by (simp add: key_def resolve_def)

lemma path_boards_parts:
  "path_boards E a = Path True (key E (path_out a) @ [''ath10k'', ''WCN3990'', ''hw1.0'', ''boards''])"
  by (simp add: path_boards_def resolve_key join_str_name plain_names)

lemma path_board_out_parts:
  "path_board_out E a =
     Path True (key E (path_out a) @ [''ath10k'', ''WCN3990'', ''hw1.0'', ''board-2.bin''])"
  by (simp add: path_board_out_def resolve_key join_str_name plain_names)

lemma key_path_boards:
  "key E (path_boards E a) = key E (path_out a) @ [''ath10k'', ''WCN3990'', ''hw1.0'', ''boards'']"
  unfolding path_boards_parts by (rule key_plain) simp

lemma released_Ok:
  "released g body w = Ok () w' \<longleftrightarrow> (\<exists>u. body w = Ok () u \<and> w' = u\<lparr>fsys := g (fsys u)\<rparr>)"
  by (auto simp: released_def split: result.splits)

lemma patch_ath10k_board_steps:
  assumes "patch_ath10k_board E log a w = Ok () w'"
  obtains f0 f1 st f2 f3 where
    "create_temp (key E (path_of_str (tmp_name E))) (fsys w) = Inr f0"
    "write_file (key E (path_of_str (tmp_name E))) (JsonDoc (board_spec E a)) f0 = Inr f1"
    "run E [''python'', str_of (ath10k_bdencoder E), ''-c'', tmp_name E, ''-o'',
            str_of (path_board_out E a)] f1 = Inr (st, f2)"
    "rmtree (key E (path_boards E a)) f2 = Inr f3"
    "fsys w' = AList.delete (key E (path_of_str (tmp_name E))) f3"
    "trace w' = trace w @ [Exec [''python'', str_of (ath10k_bdencoder E), ''-c'', tmp_name E, ''-o'',
            str_of (path_board_out E a)] f1]"
proof -
  let ?tmp = "key E (path_of_str (tmp_name E))"
  let ?argv = "[''python'', str_of (ath10k_bdencoder E), ''-c'', tmp_name E, ''-o'',
            str_of (path_board_out E a)]"
  let ?body = "seq [fs_op (write_file ?tmp (JsonDoc (board_spec E a))),
              discard (subprocess_call E ?argv),
              fs_op (rmtree (key E (path_boards E a)))]"
  from assms have s: "seq [fs_op (create_temp ?tmp), released (AList.delete ?tmp) ?body] w = Ok () w'"
    by (simp add: patch_ath10k_board_def Let_def)
  then obtain w0 where c: "fs_op (create_temp ?tmp) w = Ok () w0"
    and s0: "released (AList.delete ?tmp) ?body w0 = Ok () w'"
    by (cases "fs_op (create_temp ?tmp) w") (auto split: result.splits)
  from s0 obtain w3 where s1: "?body w0 = Ok () w3"
    and rel: "w' = w3\<lparr>fsys := AList.delete ?tmp (fsys w3)\<rparr>"
    by (auto simp: released_Ok)
  from s1 obtain w1 where wr: "fs_op (write_file ?tmp (JsonDoc (board_spec E a))) w0 = Ok () w1"
    and s2: "seq [discard (subprocess_call E ?argv),
              fs_op (rmtree (key E (path_boards E a)))] w1 = Ok () w3"
    by (cases "fs_op (write_file ?tmp (JsonDoc (board_spec E a))) w0") auto
  then obtain w2 where ca: "discard (subprocess_call E ?argv) w1 = Ok () w2"
    and rm: "fs_op (rmtree (key E (path_boards E a))) w2 = Ok () w3"
    by (cases "discard (subprocess_call E ?argv) w1") (auto split: result.splits)
  from c obtain f0 where f0: "create_temp ?tmp (fsys w) = Inr f0" "w0 = w\<lparr>fsys := f0\<rparr>"
    by (auto simp: fs_op_Ok)
  from wr f0 obtain f1 where f1: "write_file ?tmp (JsonDoc (board_spec E a)) f0 = Inr f1"
      "w1 = w\<lparr>fsys := f1\<rparr>"
    by (auto simp: fs_op_Ok)
  from ca f1 obtain st f2 where f2: "run E ?argv f1 = Inr (st, f2)"
      "w2 = w\<lparr>trace := trace w @ [Exec ?argv f1], fsys := f2\<rparr>"
    by (auto simp: discard_def subprocess_call_def Let_def split: sum.splits prod.splits)
  from rm f2 obtain f3 where f3: "rmtree (key E (path_boards E a)) f2 = Inr f3"
      "w3 = w\<lparr>trace := trace w @ [Exec ?argv f1], fsys := f3\<rparr>"
    by (auto simp: fs_op_Ok)
  from rel f3 have "fsys w' = AList.delete ?tmp f3" "trace w' = trace w @ [Exec ?argv f1]"
    by auto
  with f0 f1 f2 f3 show ?thesis using that by blast
qed


text \<open>
  C7. Whenever the board patch completes: it ran exactly one program, the encoder,
  with the arguments \<^verbatim>\<open>-c\<close> the temporary file and \<^verbatim>\<open>-o\<close> the path
  \<^verbatim>\<open>ath10k/WCN3990/hw1.0/board-2.bin\<close> under the resolved output root. The file system
  \<open>f1\<close> the encoder was started on differs from the initial one only in the temporary
  file, which holds the specification: a list of exactly one record, whose data file is
  \<^verbatim>\<open>boards/bdwlan.b58\<close> and whose names are the single board name. After the encoder
  returned (with any status), the directory \<^verbatim>\<open>boards\<close> was still there and was then
  deleted: in the final world no path at or below it exists; every other path, the
  temporary file apart, is as the encoder left it.
\<close>

theorem board_reencoding:
  assumes "patch_ath10k_board E log a w = Ok () w'"
  shows "\<exists>f1 st f2.
           trace w' = trace w @
             [Exec [''python'', str_of (ath10k_bdencoder E), ''-c'', tmp_name E,
                    ''-o'', str_of (path_board_out E a)] f1] \<and>
           path_board_out E a =
             Path True (key E (path_out a) @ [''ath10k'', ''WCN3990'', ''hw1.0'', ''board-2.bin'']) \<and>
           lookup f1 (key E (path_of_str (tmp_name E))) =
             Some (File (JsonDoc (JArray
               [JObject [(''data'', JString (str_of (Path True (key E (path_out a) @
                            [''ath10k'', ''WCN3990'', ''hw1.0'', ''boards'', ''bdwlan.b58''])))),
                         (''names'', JArray [JString ''bus=snoc,qmi-board-id=ff,qmi-chip-id=30224''])]]))) \<and>
           (\<forall>q. q \<noteq> key E (path_of_str (tmp_name E)) \<longrightarrow> lookup f1 q = lookup (fsys w) q) \<and>
           run E [''python'', str_of (ath10k_bdencoder E), ''-c'', tmp_name E,
                  ''-o'', str_of (path_board_out E a)] f1 = Inr (st, f2) \<and>
           lookup f2 (key E (path_out a) @ [''ath10k'', ''WCN3990'', ''hw1.0'', ''boards'']) = Some Dir \<and>
           (\<forall>q. prefix (key E (path_out a) @ [''ath10k'', ''WCN3990'', ''hw1.0'', ''boards'']) q
                 \<longrightarrow> map_of (fsys w') q = None) \<and>
           (\<forall>q. \<not> prefix (key E (path_out a) @ [''ath10k'', ''WCN3990'', ''hw1.0'', ''boards'']) q \<and>
                 q \<noteq> key E (path_of_str (tmp_name E))
                 \<longrightarrow> map_of (fsys w') q = map_of f2 q)"
proof -
  let ?tmp = "key E (path_of_str (tmp_name E))"
  let ?boards = "key E (path_out a) @ [''ath10k'', ''WCN3990'', ''hw1.0'', ''boards'']"
  from assms obtain f0 f1 st f2 f3 where
    c: "create_temp ?tmp (fsys w) = Inr f0" and
    wr: "write_file ?tmp (JsonDoc (board_spec E a)) f0 = Inr f1" and
    ru: "run E [''python'', str_of (ath10k_bdencoder E), ''-c'', tmp_name E, ''-o'',
            str_of (path_board_out E a)] f1 = Inr (st, f2)" and
    rm: "rmtree (key E (path_boards E a)) f2 = Inr f3" and
    fs': "fsys w' = AList.delete ?tmp f3" and
    tr: "trace w' = trace w @ [Exec [''python'', str_of (ath10k_bdencoder E), ''-c'', tmp_name E, ''-o'',
            str_of (path_board_out E a)] f1]"
    by (rule patch_ath10k_board_steps)
  have kb: "key E (path_boards E a) = ?boards"
    by (rule key_path_boards)
  have spec: "board_spec E a = JArray
               [JObject [(''data'', JString (str_of (Path True (key E (path_out a) @
                            [''ath10k'', ''WCN3990'', ''hw1.0'', ''boards'', ''bdwlan.b58''])))),
                         (''names'', JArray [JString ''bus=snoc,qmi-board-id=ff,qmi-chip-id=30224''])]]"
    by (simp add: board_spec_def path_boards_parts join_str_name plain_names
          ATH10K_BOARD_FILE_def ATH10K_BOARD_NAME_def)
  have l1: "lookup f1 q = (if q = ?tmp then Some (File (JsonDoc (board_spec E a))) else lookup (fsys w) q)"
    for q
    using write_file_Inr(4) [OF wr, of q] create_temp_Inr(2) [OF c, of q] by simp
  have l3: "map_of f3 q = (if prefix ?boards q then None else map_of f2 q)" for q
    using rmtree_Inr(2) [OF rm, of q] by (simp add: kb)
  have l': "map_of (fsys w') q = (if q = ?tmp \<or> prefix ?boards q then None else map_of f2 q)" for q
    by (simp add: fs' delete_conv' l3)
  have "lookup f2 ?boards = Some Dir"
    using rmtree_Inr(1) [OF rm] by (simp add: kb)
  with tr ru l1 l' spec path_board_out_parts [of E a] show ?thesis
    by (intro exI [of _ f1] exI [of _ st] exI [of _ f2]) simp
qed

text \<open>A run of C7 on the example tree: one program run, and the directory is gone.\<close>

theorem board_reencoding_witness:
  "completes (patch_ath10k_board example_env step_logger example_args example_tree) \<and>
   programs_run (trace (world_of (patch_ath10k_board example_env step_logger example_args example_tree)))
     = [[''python'',
         ''/opt/fw/scripts/third-party/qca-swiss-army-knife/tools/scripts/ath10k/ath10k-bdencoder'',
         ''-c'', ''/tmp/tmpspec'', ''-o'', ''/work/out/ath10k/WCN3990/hw1.0/board-2.bin'']] \<and>
   map_of (fsys (world_of (patch_ath10k_board example_env step_logger example_args example_tree)))
     [''work'', ''out'', ''ath10k'', ''WCN3990'', ''hw1.0'', ''boards'', ''bdwlan.b58''] = None \<and>
   map_of (fsys (world_of (patch_ath10k_board example_env step_logger example_args example_tree)))
     [''work'', ''out'', ''ath10k'', ''WCN3990'', ''hw1.0'', ''boards''] = None"
proof -
  let ?r = "patch_ath10k_board example_env step_logger example_args example_tree"
  have c: "completes ?r"
    by code_simp
  have k: "key example_env (path_out example_args) = [''work'', ''out'']"
    by code_simp
  from board_reencoding [OF completes_world_of [OF c]]
  have gone: "\<forall>q. prefix ([''work'', ''out''] @ [''ath10k'', ''WCN3990'', ''hw1.0'', ''boards'']) q
                 \<longrightarrow> map_of (fsys (world_of ?r)) q = None"
    unfolding k by blast
  have "map_of (fsys (world_of ?r))
          [''work'', ''out'', ''ath10k'', ''WCN3990'', ''hw1.0'', ''boards'', ''bdwlan.b58''] = None"
    using gone by simp
  moreover have "map_of (fsys (world_of ?r))
          [''work'', ''out'', ''ath10k'', ''WCN3990'', ''hw1.0'', ''boards''] = None"
    using gone by simp
  moreover have "programs_run (trace (world_of ?r))
     = [[''python'',
         ''/opt/fw/scripts/third-party/qca-swiss-army-knife/tools/scripts/ath10k/ath10k-bdencoder'',
         ''-c'', ''/tmp/tmpspec'', ''-o'', ''/work/out/ath10k/WCN3990/hw1.0/board-2.bin'']]"
    by code_simp
  ultimately show ?thesis using c by blast
qed

subsection \<open>Remote fetch\<close>

lemma lookup_snoc:
  "lookup (f @ [(k, n)]) q = (case lookup f q of Some x \<Rightarrow> Some x | None \<Rightarrow> if q = k then Some n else None)"
  by (auto simp: lookup_def map_add_def split: option.splits)

lemma mkdir_walk_Inr:
  assumes "mkdir_walk cur cs f = Inr f'"
  shows "(\<forall>q. lookup f' q = lookup f q \<or> (lookup f q = None \<and> lookup f' q = Some Dir)) \<and>
         (\<forall>j. 0 < j \<and> j \<le> length cs \<longrightarrow> lookup f' (cur @ take j cs) = Some Dir)"
  using assms
proof (induction cs arbitrary: cur f)
  case Nil
  then show ?case by simp
next
  case (Cons c cs)
  let ?k = "cur @ [c]"
  obtain f1 where f1: "mkdir_walk ?k cs f1 = Inr f'"
    and step: "\<forall>q. lookup f1 q = lookup f q \<or> (lookup f q = None \<and> lookup f1 q = Some Dir)"
    and here: "lookup f1 ?k = Some Dir"
  proof (cases "lookup f ?k")
    case None
    with Cons.prems have "mkdir_walk ?k cs (f @ [(?k, Dir)]) = Inr f'" by simp
    moreover have "\<forall>q. lookup (f @ [(?k, Dir)]) q = lookup f q \<or>
                      (lookup f q = None \<and> lookup (f @ [(?k, Dir)]) q = Some Dir)"
      by (auto simp: lookup_snoc split: option.splits)
    moreover have "lookup (f @ [(?k, Dir)]) ?k = Some Dir"
      using None by (simp add: lookup_snoc)
    ultimately show ?thesis using that by blast
  next
    case (Some n)
    with Cons.prems have n: "n = Dir" by (cases n) simp_all
    with Some Cons.prems have "mkdir_walk ?k cs f = Inr f'" by simp
    with Some n show ?thesis using that [of f] by simp
  qed
  note ih = Cons.IH [OF f1]
  have keep: "lookup f' q = lookup f1 q \<or> (lookup f1 q = None \<and> lookup f' q = Some Dir)" for q
    using ih by blast
  have a: "\<forall>q. lookup f' q = lookup f q \<or> (lookup f q = None \<and> lookup f' q = Some Dir)"
  proof
    fix q
    from step have "lookup f1 q = lookup f q \<or> (lookup f q = None \<and> lookup f1 q = Some Dir)"
      by blast
    with keep [of q] show "lookup f' q = lookup f q \<or> (lookup f q = None \<and> lookup f' q = Some Dir)"
      by auto
  qed
  have b: "lookup f' (cur @ take j (c # cs)) = Some Dir" if "0 < j" "j \<le> length (c # cs)" for j
  proof (cases j)
    case 0
    with that show ?thesis by simp
  next
    case (Suc i)
    show ?thesis
    proof (cases i)
      case 0
      with Suc have "cur @ take j (c # cs) = ?k" by simp
      with here keep [of ?k] show ?thesis by auto
    next
      case (Suc i')
      with \<open>j = Suc i\<close> that have "0 < i \<and> i \<le> length cs" by simp
      with ih have "lookup f' (?k @ take i cs) = Some Dir" by blast
      with \<open>j = Suc i\<close> show ?thesis by simp
    qed
  qed
  from a b show ?case by blast
qed

lemma mkdir_parents_Inr:
  assumes "mkdir_parents k f = Inr f'"
  shows "lookup f' q = lookup f q \<or> (lookup f q = None \<and> lookup f' q = Some Dir)"
    and "prefix q k \<Longrightarrow> lookup f' q = Some Dir"
proof -
  note w = mkdir_walk_Inr [OF assms [unfolded mkdir_parents_def]]
  from w show "lookup f' q = lookup f q \<or> (lookup f q = None \<and> lookup f' q = Some Dir)"
    by blast
  assume "prefix q k"
  then obtain r where k: "k = q @ r" by (auto simp: prefix_def)
  show "lookup f' q = Some Dir"
  proof (cases "q = []")
    case True
    then show ?thesis by (simp add: lookup_root)
  next
    case False
    then have "0 < length q \<and> length q \<le> length k" using k by simp
    with w have "lookup f' ([] @ take (length q) k) = Some Dir" by blast
    with k show ?thesis by simp
  qed
qed

lemma download_step_Ok:
  assumes "download_step E log a self (s, t) u = Ok () v"
  shows "\<exists>c. urlopen E (source_url self @ ''/'' @ s) = Inr c \<and>
             trace v = trace u @ [Print (pfx log @ dl_message self (s, t)),
                                  Request (source_url self @ ''/'' @ s)] \<and>
             lookup (fsys v) (key E (dl_target a self t)) = Some (File c) \<and>
             (\<forall>q. prefix q (key E (parent (dl_target a self t))) \<longrightarrow> lookup (fsys v) q = Some Dir) \<and>
             (\<forall>q. lookup (fsys u) q = Some Dir \<longrightarrow> lookup (fsys v) q = Some Dir) \<and>
             (\<forall>q c'. lookup (fsys u) q = Some (File c') \<longrightarrow> (\<exists>c''. lookup (fsys v) q = Some (File c'')))"
proof -
  let ?url = "source_url self @ ''/'' @ s"
  let ?tgt = "dl_target a self t"
  from assms have s: "seq [fs_op (mkdir_parents (key E (parent ?tgt))),
              info log (dl_message self (s, t)),
              urlretrieve E ?url (key E ?tgt)] u = Ok () v"
    by (simp add: Let_def dl_target_def dl_message_def)
  then obtain u1 where mk: "fs_op (mkdir_parents (key E (parent ?tgt))) u = Ok () u1"
    and s1: "seq [info log (dl_message self (s, t)), urlretrieve E ?url (key E ?tgt)] u1 = Ok () v"
    by (cases "fs_op (mkdir_parents (key E (parent ?tgt))) u") auto
  from mk obtain f1 where f1: "mkdir_parents (key E (parent ?tgt)) (fsys u) = Inr f1"
    and u1: "u1 = u\<lparr>fsys := f1\<rparr>"
    by (auto simp: fs_op_Ok)
  from s1 have r: "urlretrieve E ?url (key E ?tgt) (printed (pfx log @ dl_message self (s, t)) u1) = Ok () v"
    by (auto simp: info_printed split: result.splits)
  then obtain c f2 where c: "urlopen E ?url = Inr c"
    and f2: "write_file (key E ?tgt) c f1 = Inr f2"
    and v: "v = u\<lparr>fsys := f2, trace := trace u @ [Print (pfx log @ dl_message self (s, t)), Request ?url]\<rparr>"
    using u1
    by (auto simp: urlretrieve_def emit_def printed_def fs_op_def split: sum.splits result.splits)
  note m = mkdir_parents_Inr [OF f1]
  note wf = write_file_Inr [OF f2]
  have l2: "lookup f2 q = (if q = key E ?tgt then Some (File c) else lookup f1 q)" for q
    by (rule wf(4))
  have dirs: "lookup f2 q = Some Dir" if "lookup f1 q = Some Dir" for q
    using that wf(3) l2 [of q] by auto
  have "lookup (fsys v) (key E ?tgt) = Some (File c)"
    using v l2 by simp
  moreover have "\<forall>q. prefix q (key E (parent ?tgt)) \<longrightarrow> lookup (fsys v) q = Some Dir"
    using v m(2) dirs by simp
  moreover have "\<forall>q. lookup (fsys u) q = Some Dir \<longrightarrow> lookup (fsys v) q = Some Dir"
  proof (intro allI impI)
    fix q assume "lookup (fsys u) q = Some Dir"
    with m(1) [of q] have "lookup f1 q = Some Dir" by auto
    then show "lookup (fsys v) q = Some Dir" using v dirs by simp
  qed
  moreover have "\<forall>q c'. lookup (fsys u) q = Some (File c') \<longrightarrow> (\<exists>c''. lookup (fsys v) q = Some (File c''))"
  proof (intro allI impI)
    fix q c' assume "lookup (fsys u) q = Some (File c')"
    with m(1) [of q] have "lookup f1 q = Some (File c')" by auto
    then show "\<exists>c''. lookup (fsys v) q = Some (File c'')" using v l2 [of q] by simp
  qed
  moreover have "trace v = trace u @ [Print (pfx log @ dl_message self (s, t)), Request ?url]"
    using v by simp
  ultimately show ?thesis using c by blast
qed

lemma download_steps_keep:
  assumes "seq (map (download_step E log a self) fm) v = Ok () w'"
  shows "set (trace v) \<subseteq> set (trace w') \<and>
         (\<forall>q. lookup (fsys v) q = Some Dir \<longrightarrow> lookup (fsys w') q = Some Dir) \<and>
         (\<forall>q c. lookup (fsys v) q = Some (File c) \<longrightarrow> (\<exists>c'. lookup (fsys w') q = Some (File c')))"
  using assms
proof (induction fm arbitrary: v)
  case Nil
  then show ?case by simp
next
  case (Cons st fm)
  obtain s t where st: "st = (s, t)" by (cases st)
  from Cons.prems st obtain v1 where
    first: "download_step E log a self (s, t) v = Ok () v1" and
    rest: "seq (map (download_step E log a self) fm) v1 = Ok () w'"
    by (auto split: result.splits)
  note d = download_step_Ok [OF first]
  note ih = Cons.IH [OF rest]
  have "set (trace v) \<subseteq> set (trace w')"
    using d ih by auto
  moreover have "\<forall>q. lookup (fsys v) q = Some Dir \<longrightarrow> lookup (fsys w') q = Some Dir"
    using d ih by blast
  moreover have "\<forall>q c. lookup (fsys v) q = Some (File c) \<longrightarrow> (\<exists>c'. lookup (fsys w') q = Some (File c'))"
    using d ih by metis
  ultimately show ?case by blast
qed

text \<open>
  C8. Let the retrieval of a remote-fetch source complete, and let \<open>(s, t)\<close> be any
  pair of its file map, \<open>fm = pre @ (s, t) # post\<close>. Then the loop completed the pairs
  before it (reaching \<open>u\<close>), then the step of this pair (from \<open>u\<close> to \<open>v\<close>), then the rest.
  In that step the message was logged and exactly one URL was requested, the base URL,
  a \<^verbatim>\<open>/\<close> and the source name; the network returned some content \<open>c\<close>; in \<open>v\<close> the
  destination \<^verbatim>\<open>path_out / target_directory / t\<close> is a file holding \<open>c\<close>, and every
  directory on the way to it exists. In the final world these directories still
  exist, the destination is still a file, and the request is in the trace.
\<close>

theorem remote_fetch_each_pair:
  assumes "get E (DownloadFirmware n td url fm) log a w = Ok () w'"
      and "fm = pre @ (s, t) # post"
  shows "\<exists>u v c.
           seq (map (download_step E log a (DownloadFirmware n td url fm)) pre) w = Ok () u \<and>
           download_step E log a (DownloadFirmware n td url fm) (s, t) u = Ok () v \<and>
           seq (map (download_step E log a (DownloadFirmware n td url fm)) post) v = Ok () w' \<and>
           urlopen E (url @ ''/'' @ s) = Inr c \<and>
           trace v = trace u @
             [Print (pfx log @ ''downloading '' @ [CHR 0x27] @ url @ ''/'' @ s @ [CHR 0x27] @ '' to ''
                       @ [CHR 0x27] @ str_of (join_str td t) @ [CHR 0x27]),
              Request (url @ ''/'' @ s)] \<and>
           (\<forall>q. prefix q (key E (parent (join_str (joinpath (path_out a) td) t)))
                 \<longrightarrow> lookup (fsys v) q = Some Dir \<and> lookup (fsys w') q = Some Dir) \<and>
           lookup (fsys v) (key E (join_str (joinpath (path_out a) td) t)) = Some (File c) \<and>
           (\<exists>c'. lookup (fsys w') (key E (join_str (joinpath (path_out a) td) t)) = Some (File c')) \<and>
           Request (url @ ''/'' @ s) \<in> set (trace w')"
proof -
  let ?self = "DownloadFirmware n td url fm"
  from assms have "seq (map (download_step E log a ?self) pre @ download_step E log a ?self (s, t)
                      # map (download_step E log a ?self) post) w = Ok () w'"
    by simp
  from seq_Ok_split [OF this] obtain u v where
    pre: "seq (map (download_step E log a ?self) pre) w = Ok () u" and
    step: "download_step E log a ?self (s, t) u = Ok () v" and
    post: "seq (map (download_step E log a ?self) post) v = Ok () w'"
    by blast
  from download_step_Ok [OF step] obtain c where
    c: "urlopen E (url @ ''/'' @ s) = Inr c" and
    tr: "trace v = trace u @ [Print (pfx log @ dl_message ?self (s, t)), Request (url @ ''/'' @ s)]" and
    fl: "lookup (fsys v) (key E (dl_target a ?self t)) = Some (File c)" and
    dr: "\<forall>q. prefix q (key E (parent (dl_target a ?self t))) \<longrightarrow> lookup (fsys v) q = Some Dir"
    by auto
  note k = download_steps_keep [OF post]
  have "Request (url @ ''/'' @ s) \<in> set (trace w')"
    using k tr by auto
  moreover have "\<exists>c'. lookup (fsys w') (key E (dl_target a ?self t)) = Some (File c')"
    using k fl by blast
  moreover have "\<forall>q. prefix q (key E (parent (dl_target a ?self t)))
                 \<longrightarrow> lookup (fsys v) q = Some Dir \<and> lookup (fsys w') q = Some Dir"
    using k dr by blast
  ultimately show ?thesis
    using pre step post c tr fl
    by (intro exI [of _ u] exI [of _ v] exI [of _ c]) (simp add: dl_target_def dl_message_def)
qed

text \<open>
  A run of C8: the source \<^verbatim>\<open>gpu/base\<close> on the example store, where the output tree
  does not exist yet.
\<close>

theorem remote_fetch_each_pair_witness:
  "completes (get example_env gpu_base step_logger example_args example_store) \<and>
   Request ''https://raw.githubusercontent.com/linux-surface/aarch64-firmware/main/firmware/qcom/a680_gmu.bin''
     \<in> set (trace (world_of (get example_env gpu_base step_logger example_args example_store))) \<and>
   lookup (fsys (world_of (get example_env gpu_base step_logger example_args example_store)))
     [''work'', ''out'', ''qcom''] = Some Dir \<and>
   lookup (fsys (world_of (get example_env gpu_base step_logger example_args example_store)))
     [''work'', ''out'', ''qcom'', ''a680_gmu.bin'']
     = Some (File (Bytes
         ''https://raw.githubusercontent.com/linux-surface/aarch64-firmware/main/firmware/qcom/a680_gmu.bin''))"
proof -
  let ?r = "get example_env gpu_base step_logger example_args example_store"
  let ?url = "URL_AARCH64_FIRMWARE_REPO @ ''/qcom''"
  let ?fm = "dict_of_names [''a680_gmu.bin'', ''a680_sqe.fw'']"
  have c: "completes ?r"
    by code_simp
  have g: "get example_env (DownloadFirmware ''gpu/base'' (path_of_str ''qcom'') ?url ?fm)
             step_logger example_args example_store = Ok () (world_of ?r)"
    using completes_world_of [OF c] by (simp add: gpu_base_def)
  have fm: "?fm = [] @ (''a680_gmu.bin'', ''a680_gmu.bin'') # [(''a680_sqe.fw'', ''a680_sqe.fw'')]"
    by code_simp
  have k: "key example_env (parent (join_str (joinpath (path_out example_args) (path_of_str ''qcom''))
              ''a680_gmu.bin'')) = [''work'', ''out'', ''qcom'']"
    by code_simp
  have u: "?url @ ''/'' @ ''a680_gmu.bin'' =
      ''https://raw.githubusercontent.com/linux-surface/aarch64-firmware/main/firmware/qcom/a680_gmu.bin''"
    by code_simp
  from remote_fetch_each_pair [OF g fm]
  have "Request (?url @ ''/'' @ ''a680_gmu.bin'') \<in> set (trace (world_of ?r)) \<and>
        (\<forall>q. prefix q (key example_env (parent (join_str (joinpath (path_out example_args)
                  (path_of_str ''qcom'')) ''a680_gmu.bin'')))
              \<longrightarrow> lookup (fsys (world_of ?r)) q = Some Dir)"
    by blast
  then have "Request (?url @ ''/'' @ ''a680_gmu.bin'') \<in> set (trace (world_of ?r))"
    and "lookup (fsys (world_of ?r)) [''work'', ''out'', ''qcom''] = Some Dir"
    unfolding k by simp_all
  moreover have "lookup (fsys (world_of ?r)) [''work'', ''out'', ''qcom'', ''a680_gmu.bin'']
     = Some (File (Bytes
         ''https://raw.githubusercontent.com/linux-surface/aarch64-firmware/main/firmware/qcom/a680_gmu.bin''))"
    by code_simp
  ultimately show ?thesis using c unfolding u by blast
qed

end
